theory Spec2Isabelle
  imports Main "HOL-Library.List_Lexorder"
begin

section \<open>The syntax tree the rule reads\<close>

text \<open>
  The rule \<^verbatim>\<open>member-access-except-decorators\<close> (file
  \<^verbatim>\<open>src/memberAccessExceptDecoratorsRule.ts\<close>) walks a TypeScript syntax tree that the
  host has parsed. The tree, the walk context and the helper functions of the libraries
  \<^verbatim>\<open>typescript\<close>, \<^verbatim>\<open>tsutils\<close> and \<^verbatim>\<open>tslint\<close> are not part of the repository; they are
  modelled here as far as the rule reads them.

  \<open>SyntaxKind\<close> lists the kinds the rule or its helpers compare against, and the kinds
  the example trees need. Every other kind of the TypeScript enumeration is
  \<open>OtherToken n\<close> (a kind inside the token range \<^verbatim>\<open>FirstToken..LastToken\<close>) or
  \<open>OtherNode n\<close> (a kind outside of it).
\<close>

datatype SyntaxKind =
    EndOfFileToken
  | NumericLiteral
  | StringLiteral
  | OpenBraceToken
  | CloseBraceToken
  | OpenParenToken
  | CloseParenToken
  | OpenBracketToken
  | CloseBracketToken
  | SemicolonToken
  | CommaToken
  | ColonToken
  | AtToken
  | AsteriskToken
  | Identifier
  | PrivateIdentifier
  | ClassKeyword
  | ConstructorKeyword
  | GetKeyword
  | SetKeyword
  | NumberKeyword
  | StringKeyword
  | PrivateKeyword
  | ProtectedKeyword
  | PublicKeyword
  | StaticKeyword
  | ReadonlyKeyword
  | AbstractKeyword
  | AsyncKeyword
  | OtherToken nat
  | ComputedPropertyName
  | Parameter
  | Decorator
  | PropertyDeclaration
  | MethodDeclaration
  | Constructor
  | GetAccessor
  | SetAccessor
  | IndexSignature
  | CallExpression
  | ClassExpression
  | Block
  | ClassDeclaration
  | SourceFile
  | SyntaxList
  | JSDocComment
  | OtherNode nat

text \<open>
  A \<^verbatim>\<open>ts.NodeArray\<close> is a list of nodes with the text range it covers
  (\<^verbatim>\<open>member.decorators.end\<close> is read by \<^verbatim>\<open>getInsertionPosition\<close>).
\<close>

datatype 'a NodeArray = NodeArray (elements: "'a list") (array_pos: int) (array_end: int)

text \<open>
  A \<^verbatim>\<open>ts.Node\<close>, with the properties and methods the rule and its helpers use:
  \<^item> \<open>kind\<close>, \<open>pos\<close>, \<open>getEnd\<close> (the property \<^verbatim>\<open>end\<close>): the node's kind and its full text
    range, which starts with the trivia before its first token;
  \<^item> \<open>getStart\<close>: the value of \<^verbatim>\<open>node.getStart(sourceFile)\<close>, the offset of the node's first
    token after that trivia (the source text itself is not modelled);
  \<^item> \<open>text'\<close>: the property \<^verbatim>\<open>text\<close> of identifiers and literals (empty elsewhere);
  \<^item> \<open>decorators\<close>, \<open>modifiers\<close>, \<open>name\<close>: the optional properties, \<open>None\<close> for
    \<^verbatim>\<open>undefined\<close>;
  \<^item> \<open>members\<close>: the member list of a class-like declaration (empty elsewhere);
  \<^item> \<open>forEachChild\<close>: the child nodes \<^verbatim>\<open>ts.forEachChild\<close> passes to its callback, in its order;
  \<^item> \<open>getChildren\<close>: the result of \<^verbatim>\<open>node.getChildren(sourceFile)\<close>, which also holds the
    tokens and wraps every node array in a \<open>SyntaxList\<close> node.
\<close>

datatype Node = Node
  (kind: SyntaxKind)
  (pos: int)
  (getStart: int)
  (getEnd: int)
  (text': string)
  (decorators: "Node NodeArray option")
  (modifiers: "Node NodeArray option")
  (name: "Node option")
  (members: "Node list")
  (forEachChild: "Node list")
  (getChildren: "Node list")

text \<open>
  \<^verbatim>\<open>Lint.Replacement\<close> (\<^verbatim>\<open>appendText(start, text)\<close> is \<^verbatim>\<open>new Replacement(start, 0, text)\<close>),
  \<^verbatim>\<open>Lint.RuleFailure\<close> and \<^verbatim>\<open>Lint.WalkContext\<close>. The reference to the source file and the
  host-supplied rule name that a failure also carries are not modelled.
\<close>

record Replacement =
  rep_start :: int
  rep_length :: int
  rep_text :: string

record RuleFailure =
  startPosition :: int
  endPosition :: int
  failure :: string
  rf_fix :: "Replacement option"

record WalkContext =
  sourceFile :: Node
  failures :: "RuleFailure list"

text \<open>
  What the rule can throw: the \<^verbatim>\<open>Error\<close> of \<^verbatim>\<open>typeToString\<close>, and the \<^verbatim>\<open>TypeError\<close> of
  JavaScript when a method is called on \<^verbatim>\<open>undefined\<close> (behind the two non-null assertions
  of the source).
\<close>

datatype error = UnhandledNodeType SyntaxKind | TypeError

section \<open>Library functions\<close>

text \<open>
  Modelled from the spec: \<^verbatim>\<open>isTokenKind\<close> of \<^verbatim>\<open>tsutils\<close> is not under src/. It holds of
  the kinds from \<^verbatim>\<open>FirstToken\<close> to \<^verbatim>\<open>LastToken\<close>: punctuation, literals, identifiers and
  keywords.
\<close>

fun isTokenKind :: "SyntaxKind \<Rightarrow> bool" where
  "isTokenKind ComputedPropertyName = False"
| "isTokenKind Parameter = False"
| "isTokenKind Decorator = False"
| "isTokenKind PropertyDeclaration = False"
| "isTokenKind MethodDeclaration = False"
| "isTokenKind Constructor = False"
| "isTokenKind GetAccessor = False"
| "isTokenKind SetAccessor = False"
| "isTokenKind IndexSignature = False"
| "isTokenKind CallExpression = False"
| "isTokenKind ClassExpression = False"
| "isTokenKind Block = False"
| "isTokenKind ClassDeclaration = False"
| "isTokenKind SourceFile = False"
| "isTokenKind SyntaxList = False"
| "isTokenKind JSDocComment = False"
| "isTokenKind (OtherNode n) = False"
| "isTokenKind k = True"

text \<open>
  Modelled from the spec: \<^verbatim>\<open>isClassLikeDeclaration\<close> of \<^verbatim>\<open>tsutils\<close> is not under src/. A
  class-like declaration is a class declaration or a class expression.
\<close>

definition isClassLikeDeclaration :: "Node \<Rightarrow> bool" where
  "isClassLikeDeclaration node \<longleftrightarrow> kind node = ClassDeclaration \<or> kind node = ClassExpression"

text \<open>
  Modelled from the spec: \<^verbatim>\<open>hasModifier\<close> of \<^verbatim>\<open>tsutils\<close> is not under src/. It tells
  whether the modifier list (possibly \<^verbatim>\<open>undefined\<close>) holds a modifier of one of the kinds.
\<close>

definition hasModifier :: "Node NodeArray option \<Rightarrow> SyntaxKind list \<Rightarrow> bool" where
  "hasModifier mods kinds =
     (case mods of
        None \<Rightarrow> False
      | Some a \<Rightarrow> list_ex (\<lambda>modifier. kind modifier \<in> set kinds) (elements a))"

text \<open>
  Modelled from the spec: \<^verbatim>\<open>getModifier\<close> of \<^verbatim>\<open>tsutils\<close> is not under src/. It returns
  the first modifier of the node that has the kind, or \<^verbatim>\<open>undefined\<close>.
\<close>

definition getModifier :: "Node \<Rightarrow> SyntaxKind \<Rightarrow> Node option" where
  "getModifier node k =
     (case modifiers node of
        None \<Rightarrow> None
      | Some a \<Rightarrow> find (\<lambda>modifier. kind modifier = k) (elements a))"

text \<open>
  Modelled from the spec: \<^verbatim>\<open>getChildOfKind\<close> of \<^verbatim>\<open>tsutils\<close> is not under src/. It returns
  the first element of \<^verbatim>\<open>node.getChildren(sourceFile)\<close> that has the kind, or
  \<^verbatim>\<open>undefined\<close>.
\<close>

definition getChildOfKind :: "Node \<Rightarrow> SyntaxKind \<Rightarrow> Node option" where
  "getChildOfKind node k = find (\<lambda>child. kind child = k) (getChildren node)"

text \<open>
  Modelled from the spec: \<^verbatim>\<open>getTokenAtPosition\<close> of \<^verbatim>\<open>tsutils\<close> is not under src/. It
  locates the token of \<open>parent\<close> that covers the offset: outside the range of \<open>parent\<close>
  there is none; a token is its own answer; otherwise the search descends, at each level
  into the first child that ends after the offset and is no JSDoc comment, until that
  child is a token.
\<close>

function getTokenAtPositionWorker :: "Node \<Rightarrow> int \<Rightarrow> Node option" where
  "getTokenAtPositionWorker node p =
     (case find (\<lambda>child. getEnd child > p \<and> kind child \<noteq> JSDocComment) (getChildren node) of
        None \<Rightarrow> None
      | Some child \<Rightarrow>
          if isTokenKind (kind child) then Some child
          else getTokenAtPositionWorker child p)"
  by pat_completeness auto

termination getTokenAtPositionWorker
proof (relation "measure (\<lambda>(n, p). size n)")
  show "wf (measure (\<lambda>(n, p). size n))" by simp
next
  fix node :: Node and p :: int and child :: Node
  assume "find (\<lambda>child. getEnd child > p \<and> kind child \<noteq> JSDocComment) (getChildren node) = Some child"
  then have "child \<in> set (getChildren node)"
    by (auto simp: find_Some_iff)
  then have "size child < size node"
    by (cases node)
       (auto simp: less_Suc_eq_le dest!: size_list_estimation'[where f = size and y = "size child"])
  then show "((child, p), (node, p)) \<in> measure (\<lambda>(n, p). size n)"
    by simp
qed

definition getTokenAtPosition :: "Node \<Rightarrow> int \<Rightarrow> Node option" where
  "getTokenAtPosition parent p =
     (if p < pos parent \<or> p \<ge> getEnd parent then None
      else if isTokenKind (kind parent) then Some parent
      else getTokenAtPositionWorker parent p)"

text \<open>
  Modelled from the spec: \<^verbatim>\<open>WalkContext.addFailureAtNode\<close> and \<^verbatim>\<open>WalkContext.addFailure\<close>
  of \<^verbatim>\<open>tslint\<close> are not under src/. The failure spans the node from its start (after
  trivia) to its end, both capped at the length of the file, and is appended to the
  failures of the context. The node argument is \<open>None\<close> when the source passes
  \<^verbatim>\<open>undefined\<close>; reading its start then throws.
\<close>

definition addFailure :: "int \<Rightarrow> int \<Rightarrow> string \<Rightarrow> Replacement option \<Rightarrow> WalkContext \<Rightarrow> WalkContext" where
  "addFailure start end' msg fx ctx =
     (let fileLength = getEnd (sourceFile ctx)
      in ctx\<lparr>failures := failures ctx @
           [\<lparr>startPosition = min start fileLength, endPosition = min end' fileLength,
             failure = msg, rf_fix = fx\<rparr>]\<rparr>)"

definition addFailureAtNode ::
  "Node option \<Rightarrow> string \<Rightarrow> Replacement option \<Rightarrow> WalkContext \<Rightarrow> error + WalkContext" where
  "addFailureAtNode node msg fx ctx =
     (case node of
        None \<Rightarrow> Inl TypeError
      | Some n \<Rightarrow> Inr (addFailure (getStart n) (getEnd n) msg fx ctx))"

definition appendText :: "int \<Rightarrow> string \<Rightarrow> Replacement" where
  "appendText start txt = \<lparr>rep_start = start, rep_length = 0, rep_text = txt\<rparr>"

section \<open>The rule\<close>

text \<open>The apostrophe, for the places where a string literal cannot hold it.\<close>

definition apostrophe :: string where
  "apostrophe = [CHR 0x27]"

text \<open>\<^verbatim>\<open>Rule.FAILURE_STRING_FACTORY\<close> (lines 22 to 29).\<close>

definition FAILURE_STRING_FACTORY :: "string \<Rightarrow> string option \<Rightarrow> string" where
  "FAILURE_STRING_FACTORY memberType memberName =
     (let memberName' =
            (case memberName of
               None \<Rightarrow> []
             | Some n \<Rightarrow> '' '' @ apostrophe @ n @ apostrophe)
      in ''The '' @ memberType @ memberName' @
         '' must be marked either 'private', 'public', or 'protected'' @ apostrophe)"

text \<open>\<^verbatim>\<open>shouldCheck\<close> (lines 49 to 60).\<close>

definition shouldCheck :: "Node \<Rightarrow> bool" where
  "shouldCheck node =
     (case kind node of
        GetAccessor \<Rightarrow> True
      | SetAccessor \<Rightarrow> True
      | MethodDeclaration \<Rightarrow> True
      | PropertyDeclaration \<Rightarrow> decorators node = None
      | _ \<Rightarrow> False)"

text \<open>\<^verbatim>\<open>typeToString\<close> (lines 107 to 122); the default branch throws.\<close>

definition typeToString :: "Node \<Rightarrow> error + string" where
  "typeToString node =
     (case kind node of
        MethodDeclaration \<Rightarrow> Inr ''class method''
      | PropertyDeclaration \<Rightarrow> Inr ''class property''
      | GetAccessor \<Rightarrow> Inr ''get property accessor''
      | SetAccessor \<Rightarrow> Inr ''set property accessor''
      | Parameter \<Rightarrow> Inr ''parameter property''
      | k \<Rightarrow> Inl (UnhandledNodeType k))"

text \<open>
  \<^verbatim>\<open>getInsertionPosition\<close> (lines 94 to 105). With decorators, the token found at the end
  of the decorator list may be \<^verbatim>\<open>undefined\<close>; the call of \<^verbatim>\<open>getStart\<close> on it then throws.
\<close>

definition getInsertionPosition :: "Node \<Rightarrow> Node \<Rightarrow> error + int" where
  "getInsertionPosition member sf =
     (case decorators member of
        None \<Rightarrow> Inr (getStart member)
      | Some ds \<Rightarrow>
          (case getTokenAtPosition member (array_end ds) of
             None \<Rightarrow> Inl TypeError
           | Some node \<Rightarrow> Inr (getStart node)))"

text \<open>
  \<^verbatim>\<open>check\<close> (lines 62 to 92). The arguments of \<^verbatim>\<open>ctx.addFailureAtNode\<close> are evaluated from
  left to right, so \<^verbatim>\<open>typeToString\<close> throws before \<^verbatim>\<open>getInsertionPosition\<close> does, and both
  before the call itself.
\<close>

definition check :: "Node \<Rightarrow> WalkContext \<Rightarrow> error + WalkContext" where
  "check node ctx =
     (if hasModifier (modifiers node) [ProtectedKeyword, PrivateKeyword] then Inr ctx
      else
        (case getModifier node PublicKeyword of
           Some publicKeyword \<Rightarrow> Inr ctx
         | None \<Rightarrow>
             (let nameNode =
                    (if kind node = Constructor then getChildOfKind node ConstructorKeyword
                     else (case name node of Some n \<Rightarrow> Some n | None \<Rightarrow> Some node));
                  memberName =
                    (case name node of
                       Some n \<Rightarrow> if kind n = Identifier then Some (text' n) else None
                     | None \<Rightarrow> None)
              in case typeToString node of
                   Inl e \<Rightarrow> Inl e
                 | Inr memberType \<Rightarrow>
                     (case getInsertionPosition node (sourceFile ctx) of
                        Inl e \<Rightarrow> Inl e
                      | Inr p \<Rightarrow>
                          addFailureAtNode nameNode
                            (FAILURE_STRING_FACTORY memberType memberName)
                            (Some (appendText p ''public '')) ctx))))"

text \<open>
  The loop over \<^verbatim>\<open>node.members\<close> (lines 39 to 43); an exception of \<^verbatim>\<open>check\<close> ends it.
\<close>

fun checkMembers :: "Node list \<Rightarrow> WalkContext \<Rightarrow> error + WalkContext" where
  "checkMembers [] ctx = Inr ctx"
| "checkMembers (child # rest) ctx =
     (case (if shouldCheck child then check child ctx else Inr ctx) of
        Inl e \<Rightarrow> Inl e
      | Inr ctx' \<Rightarrow> checkMembers rest ctx')"

text \<open>
  The callback \<^verbatim>\<open>recur\<close> of \<^verbatim>\<open>walk\<close> (lines 37 to 47), with \<^verbatim>\<open>ts.forEachChild(node, recur)\<close>
  unfolded into \<open>forEachChild_recur\<close>: \<^verbatim>\<open>forEachChild\<close> calls the callback on each child in
  turn, stops at the first call that returns a truthy value and returns that value, and
  returns \<^verbatim>\<open>undefined\<close> after the last child. \<^verbatim>\<open>recur\<close> returns what \<^verbatim>\<open>forEachChild\<close>
  returned. The result is \<open>Some\<close> for a truthy value and \<open>None\<close> for \<^verbatim>\<open>undefined\<close>.
\<close>

function recur :: "Node \<Rightarrow> WalkContext \<Rightarrow> error + (unit option \<times> WalkContext)"
  and forEachChild_recur :: "Node list \<Rightarrow> WalkContext \<Rightarrow> error + (unit option \<times> WalkContext)" where
  "recur node ctx =
     (case (if isClassLikeDeclaration node then checkMembers (members node) ctx else Inr ctx) of
        Inl e \<Rightarrow> Inl e
      | Inr ctx' \<Rightarrow> forEachChild_recur (forEachChild node) ctx')"
| "forEachChild_recur [] ctx = Inr (None, ctx)"
| "forEachChild_recur (child # rest) ctx =
     (case recur child ctx of
        Inl e \<Rightarrow> Inl e
      | Inr (Some r, ctx') \<Rightarrow> Inr (Some r, ctx')
      | Inr (None, ctx') \<Rightarrow> forEachChild_recur rest ctx')"
  by pat_completeness auto

termination recur
proof (relation "measure (\<lambda>x. case x of
          Inl (n, ctx) \<Rightarrow> 2 * size n
        | Inr (ns, ctx) \<Rightarrow> 2 * size_list size ns + 1)", goal_cases)
  case (2 node ctx ctx')
  have "Suc (2 * size_list size (forEachChild node)) < 2 * size node"
    by (cases node) simp
  then show ?case by simp
qed auto

text \<open>\<^verbatim>\<open>walk\<close> (lines 36 to 47) and \<^verbatim>\<open>Rule.apply\<close> (lines 31 to 33), which runs \<^verbatim>\<open>walk\<close> on
  a fresh context and returns the failures collected in it.\<close>

definition walk :: "WalkContext \<Rightarrow> error + (unit option \<times> WalkContext)" where
  "walk ctx = forEachChild_recur (forEachChild (sourceFile ctx)) ctx"

definition Rule_apply :: "Node \<Rightarrow> error + RuleFailure list" where
  "Rule_apply sf =
     (case walk \<lparr>sourceFile = sf, failures = []\<rparr> of
        Inl e \<Rightarrow> Inl e
      | Inr (r, ctx) \<Rightarrow> Inr (failures ctx))"

section \<open>Notions the properties are stated with\<close>

text \<open>
  A member carries an explicit visibility modifier when its modifier list holds
  \<^verbatim>\<open>public\<close>, \<^verbatim>\<open>private\<close> or \<^verbatim>\<open>protected\<close>.
\<close>

definition hasVisibilityModifier :: "Node \<Rightarrow> bool" where
  "hasVisibilityModifier node =
     (case modifiers node of
        None \<Rightarrow> False
      | Some a \<Rightarrow>
          list_ex (\<lambda>m. kind m = PublicKeyword \<or> kind m = PrivateKeyword \<or> kind m = ProtectedKeyword)
            (elements a))"

text \<open>
  The nodes of a tree in depth-first pre-order, over the children \<^verbatim>\<open>ts.forEachChild\<close>
  visits: \<open>preorder n\<close> lists \<open>n\<close> and then its descendants, \<open>preorders\<close> does so for
  a list of siblings from left to right.
\<close>

function preorder :: "Node \<Rightarrow> Node list" and preorders :: "Node list \<Rightarrow> Node list" where
  "preorder n = n # preorders (forEachChild n)"
| "preorders [] = []"
| "preorders (c # cs) = preorder c @ preorders cs"
  by pat_completeness auto

termination preorder
proof (relation "measure (\<lambda>x. case x of
          Inl n \<Rightarrow> 2 * size n
        | Inr ns \<Rightarrow> 2 * size_list size ns + 1)", goal_cases)
  case (2 n)
  have "Suc (2 * size_list size (forEachChild n)) < 2 * size n"
    by (cases n) simp
  then show ?case by simp
qed auto

text \<open>
  The class-specific step of \<^verbatim>\<open>recur\<close> at one node, and a run of it over a list of nodes
  that stops at the first exception.
\<close>

definition classStep :: "Node \<Rightarrow> WalkContext \<Rightarrow> error + WalkContext" where
  "classStep node ctx =
     (if isClassLikeDeclaration node then checkMembers (members node) ctx else Inr ctx)"

fun classSteps :: "Node list \<Rightarrow> WalkContext \<Rightarrow> error + WalkContext" where
  "classSteps [] ctx = Inr ctx"
| "classSteps (n # ns) ctx =
     (case classStep n ctx of
        Inl e \<Rightarrow> Inl e
      | Inr ctx' \<Rightarrow> classSteps ns ctx')"

text \<open>
  The members of all class-like declarations below the root of a file, in the order the
  walk meets them, and the failures the loop body of the walk reports for one member
  when it starts from an empty context.
\<close>

definition classMembers :: "Node \<Rightarrow> Node list" where
  "classMembers sf =
     concat (map members (filter isClassLikeDeclaration (preorders (forEachChild sf))))"

definition memberFailures :: "Node \<Rightarrow> Node \<Rightarrow> RuleFailure list" where
  "memberFailures sf member =
     (if shouldCheck member then
        (case check member \<lparr>sourceFile = sf, failures = []\<rparr> of
           Inl e \<Rightarrow> []
         | Inr ctx \<Rightarrow> failures ctx)
      else [])"

text \<open>
  The node whose span a failure reports when the member is no constructor (lines 79 to
  81), and the name passed to the message (lines 82 to 85).
\<close>

definition locationNode :: "Node \<Rightarrow> Node" where
  "locationNode node = (case name node of Some n \<Rightarrow> n | None \<Rightarrow> node)"

definition nameText :: "Node \<Rightarrow> string option" where
  "nameText node =
     (case name node of
        Some n \<Rightarrow> if kind n = Identifier then Some (text' n) else None
      | None \<Rightarrow> None)"

text \<open>
  A decorated member has a token after its decorators when \<^verbatim>\<open>getTokenAtPosition\<close> finds
  one at the end of the decorator list, as it does whenever something of the member
  follows its decorators (a tree parsed from text without syntax errors): then
  \<^verbatim>\<open>getInsertionPosition\<close> does not throw.
\<close>

definition tokenAfterDecorators :: "Node \<Rightarrow> bool" where
  "tokenAfterDecorators member =
     (case decorators member of
        None \<Rightarrow> True
      | Some ds \<Rightarrow> getTokenAtPosition member (array_end ds) \<noteq> None)"

text \<open>
  The tokens of a node that end after an offset, from left to right, found the way
  \<^verbatim>\<open>getTokenAtPosition\<close> searches: among the children that end after the offset and are
  no JSDoc comments, a token counts itself and any other child counts the tokens below
  it.
\<close>

function tokensAfter :: "Node \<Rightarrow> int \<Rightarrow> Node list"
  and tokensAfterList :: "Node list \<Rightarrow> int \<Rightarrow> Node list" where
  "tokensAfter n p = tokensAfterList (getChildren n) p"
| "tokensAfterList [] p = []"
| "tokensAfterList (c # cs) p =
     (if getEnd c > p \<and> kind c \<noteq> JSDocComment then
        (if isTokenKind (kind c) then [c] else tokensAfter c p)
      else []) @ tokensAfterList cs p"
  by pat_completeness auto

termination tokensAfter
proof (relation "measure (\<lambda>x. case x of
          Inl (n, p) \<Rightarrow> 2 * size n
        | Inr (ns, p) \<Rightarrow> 2 * size_list size ns + 1)", goal_cases)
  case (2 n p)
  have "Suc (2 * size_list size (getChildren n)) < 2 * size n"
    by (cases n) simp
  then show ?case by simp
qed auto

text \<open>
  The nesting of the text ranges over the children that \<^verbatim>\<open>getChildren\<close> returns: the
  range of a node starts with its trivia (\<open>pos \<le> getStart \<le> getEnd\<close>), a token has no
  children, and the children lie inside the range of their parent. The JSDoc comments of
  a node are left out: \<^verbatim>\<open>getChildren\<close> lists them before the other children, and they lie
  in the trivia the node starts with, so they overlap its first child.
\<close>

function wellNested :: "Node \<Rightarrow> bool"
  and wellNestedList :: "int \<Rightarrow> int \<Rightarrow> Node list \<Rightarrow> bool" where
  "wellNested n \<longleftrightarrow>
     pos n \<le> getStart n \<and> getStart n \<le> getEnd n
     \<and> (isTokenKind (kind n) \<longrightarrow> getChildren n = [])
     \<and> wellNestedList (pos n) (getEnd n) (getChildren n)"
| "wellNestedList lo hi [] \<longleftrightarrow> True"
| "wellNestedList lo hi (c # cs) \<longleftrightarrow>
     (kind c = JSDocComment \<or> lo \<le> pos c \<and> getEnd c \<le> hi \<and> wellNested c)
     \<and> wellNestedList lo hi cs"
  by pat_completeness auto

termination wellNested
proof (relation "measure (\<lambda>x. case x of
          Inl n \<Rightarrow> 2 * size n
        | Inr (lo, hi, ns) \<Rightarrow> 2 * size_list size ns + 1)", goal_cases)
  case (2 n)
  have "Suc (2 * size_list size (getChildren n)) < 2 * size n"
    by (cases n) simp
  then show ?case by simp
qed auto

text \<open>Nodes in the order of the text, none overlapping the next.\<close>

definition inOrder :: "Node list \<Rightarrow> bool" where
  "inOrder ts = sorted_wrt (\<lambda>a b. getEnd a \<le> pos b) ts"

text \<open>
  The syntax list that wraps a node array in the result of \<^verbatim>\<open>getChildren\<close>: it has the
  elements and the range of the array.
\<close>

definition wrapsArray :: "Node \<Rightarrow> Node NodeArray \<Rightarrow> bool" where
  "wrapsArray sl a \<longleftrightarrow>
     kind sl = SyntaxList \<and> getChildren sl = elements a
     \<and> pos sl = array_pos a \<and> getEnd sl = array_end a"

text \<open>
  A node starts with a token when it is a token, or when its first child is a token that
  is not empty and starts where the node starts (the bracket of a computed property name
  or of a binding pattern).
\<close>

definition startsWithToken :: "Node \<Rightarrow> bool" where
  "startsWithToken n \<longleftrightarrow>
     isTokenKind (kind n)
     \<or> (case getChildren n of
           [] \<Rightarrow> False
         | c # cs \<Rightarrow> isTokenKind (kind c) \<and> getStart c = getStart n \<and> pos c < getEnd c)"

text \<open>
  The layout of a decorated member in a tree parsed from text without syntax errors:
  \<^item> the decorator list is not empty and ends where its last decorator ends;
  \<^item> the ranges below the member are nested;
  \<^item> the children of the member other than its JSDoc comments follow each other in the
    order of the text;
  \<^item> a syntax list among the children wraps the decorators;
  \<^item> the modifiers, when there are any, begin where the decorators end or later, are
    wrapped by a syntax list among the children, follow each other in the order of the
    text, and each is a token that is not empty;
  \<^item> the name, when there is one, is among the children, begins where the decorators end or
    later, is not empty and starts with a token.
\<close>

definition laidOutAsParsed :: "Node \<Rightarrow> Node NodeArray \<Rightarrow> bool" where
  "laidOutAsParsed member ds \<longleftrightarrow>
     elements ds \<noteq> [] \<and> array_end ds = getEnd (last (elements ds))
     \<and> wellNested member
     \<and> inOrder (filter (\<lambda>c. kind c \<noteq> JSDocComment) (getChildren member))
     \<and> list_ex (\<lambda>sl. wrapsArray sl ds) (getChildren member)
     \<and> (case modifiers member of
           None \<Rightarrow> True
         | Some ms \<Rightarrow>
             array_end ds \<le> array_pos ms
             \<and> list_ex (\<lambda>sl. wrapsArray sl ms) (getChildren member)
             \<and> inOrder (elements ms)
             \<and> list_all (\<lambda>m. isTokenKind (kind m) \<and> pos m < getEnd m) (elements ms))
     \<and> (case name member of
           None \<Rightarrow> True
         | Some nm \<Rightarrow>
             nm \<in> set (getChildren member) \<and> kind nm \<noteq> JSDocComment
             \<and> array_end ds \<le> pos nm \<and> pos nm < getEnd nm \<and> startsWithToken nm)"

text \<open>
  The position of a node in a tree is the path of child indices that leads to it from
  the root, over the children \<^verbatim>\<open>ts.forEachChild\<close> visits. \<open>nodeAt\<close> follows a path,
  \<open>paths\<close> lists the positions of a tree in depth-first pre-order.
\<close>

fun nodeAt :: "Node \<Rightarrow> nat list \<Rightarrow> Node option" where
  "nodeAt n [] = Some n"
| "nodeAt n (i # is) =
     (if i < length (forEachChild n) then nodeAt (forEachChild n ! i) is else None)"

function paths :: "Node \<Rightarrow> nat list list" and pathsFrom :: "nat \<Rightarrow> Node list \<Rightarrow> nat list list" where
  "paths n = [] # pathsFrom 0 (forEachChild n)"
| "pathsFrom i [] = []"
| "pathsFrom i (c # cs) = map ((#) i) (paths c) @ pathsFrom (Suc i) cs"
  by pat_completeness auto

termination paths
proof (relation "measure (\<lambda>x. case x of
          Inl n \<Rightarrow> 2 * size n
        | Inr (i, ns) \<Rightarrow> 2 * size_list size ns + 1)", goal_cases)
  case (2 n)
  have "Suc (2 * size_list size (forEachChild n)) < 2 * size n"
    by (cases n) simp
  then show ?case by simp
qed auto

text \<open>The node that a path reaches from a list of siblings.\<close>

definition childAt :: "Node list \<Rightarrow> nat list \<Rightarrow> Node option" where
  "childAt cs p =
     (case p of
        [] \<Rightarrow> None
      | i # is \<Rightarrow> if i < length cs then nodeAt (cs ! i) is else None)"

section \<open>Example trees\<close>

text \<open>
  A token (also an identifier, a literal or a keyword) has no children; a syntax list
  wraps the elements of a node array in the result of \<^verbatim>\<open>getChildren\<close>. The three numbers
  are \<open>pos\<close>, \<open>getStart\<close> and \<open>getEnd\<close>.
\<close>

definition token :: "SyntaxKind \<Rightarrow> string \<Rightarrow> int \<Rightarrow> int \<Rightarrow> int \<Rightarrow> Node" where
  "token k txt p s e = Node k p s e txt None None None [] [] []"

definition syntaxList :: "int \<Rightarrow> int \<Rightarrow> int \<Rightarrow> Node list \<Rightarrow> Node" where
  "syntaxList p s e elems = Node SyntaxList p s e [] None None None [] [] elems"

text \<open>The trees of the source text \<^verbatim>\<open>class A { constructor(public x: number, y: number) {} }\<close>: the two parameters, the constructor, the class and the file.\<close>

definition ctorParamX :: Node where
  "ctorParamX =
    (Node Parameter 22 22 38 []
      None
      (Some (NodeArray [(token PublicKeyword [] 22 22 28)] 22 28))
      (Some (token Identifier ''x'' 28 29 30))
      []
      [(token PublicKeyword [] 22 22 28),
       (token Identifier ''x'' 28 29 30),
       (token NumberKeyword [] 31 32 38)]
      [(syntaxList 22 22 28
         [(token PublicKeyword [] 22 22 28)]),
       (token Identifier ''x'' 28 29 30),
       (token ColonToken [] 30 30 31),
       (token NumberKeyword [] 31 32 38)])"

definition ctorParamY :: Node where
  "ctorParamY =
    (Node Parameter 39 40 49 []
      None None
      (Some (token Identifier ''y'' 39 40 41))
      []
      [(token Identifier ''y'' 39 40 41),
       (token NumberKeyword [] 42 43 49)]
      [(token Identifier ''y'' 39 40 41),
       (token ColonToken [] 41 41 42),
       (token NumberKeyword [] 42 43 49)])"

definition ctorMember :: Node where
  "ctorMember =
    (Node Constructor 9 10 53 []
      None None None []
      [ctorParamX,
       ctorParamY,
       (Node Block 50 51 53 []
         None None None [] []
         [(token OpenBraceToken [] 50 51 52),
          (syntaxList 52 52 52 []),
          (token CloseBraceToken [] 52 52 53)])]
      [(token ConstructorKeyword [] 9 10 21),
       (token OpenParenToken [] 21 21 22),
       (syntaxList 22 22 49
         [ctorParamX,
          (token CommaToken [] 38 38 39),
          ctorParamY]),
       (token CloseParenToken [] 49 49 50),
       (Node Block 50 51 53 []
         None None None [] []
         [(token OpenBraceToken [] 50 51 52),
          (syntaxList 52 52 52 []),
          (token CloseBraceToken [] 52 52 53)])])"

definition ctorClass :: Node where
  "ctorClass =
    (Node ClassDeclaration 0 0 55 []
      None None
      (Some (token Identifier ''A'' 5 6 7))
      [ctorMember]
      [(token Identifier ''A'' 5 6 7),
       ctorMember]
      [(token ClassKeyword [] 0 0 5),
       (token Identifier ''A'' 5 6 7),
       (token OpenBraceToken [] 7 8 9),
       (syntaxList 9 10 53
         [ctorMember]),
       (token CloseBraceToken [] 53 54 55)])"

definition ctorFile :: Node where
  "ctorFile =
    (Node SourceFile 0 0 55 []
      None None None []
      [ctorClass,
       (token EndOfFileToken [] 55 55 55)]
      [(syntaxList 0 0 55
         [ctorClass]),
       (token EndOfFileToken [] 55 55 55)])"

text \<open>The trees of the source text \<^verbatim>\<open>class A { @dec()foo(){} }\<close>, where no trivia separates the decorator from the name.\<close>

definition tightMethod :: Node where
  "tightMethod =
    (Node MethodDeclaration 9 10 23 []
      (Some (NodeArray [(Node Decorator 9 10 16 []
           None None None []
           [(Node CallExpression 11 11 16 []
              None None None []
              [(token Identifier ''dec'' 11 11 14)]
              [(token Identifier ''dec'' 11 11 14),
               (token OpenParenToken [] 14 14 15),
               (syntaxList 15 15 15 []),
               (token CloseParenToken [] 15 15 16)])]
           [(token AtToken [] 9 10 11),
            (Node CallExpression 11 11 16 []
              None None None []
              [(token Identifier ''dec'' 11 11 14)]
              [(token Identifier ''dec'' 11 11 14),
               (token OpenParenToken [] 14 14 15),
               (syntaxList 15 15 15 []),
               (token CloseParenToken [] 15 15 16)])])] 9 16))
      None
      (Some (token Identifier ''foo'' 16 16 19))
      []
      [(Node Decorator 9 10 16 []
         None None None []
         [(Node CallExpression 11 11 16 []
            None None None []
            [(token Identifier ''dec'' 11 11 14)]
            [(token Identifier ''dec'' 11 11 14),
             (token OpenParenToken [] 14 14 15),
             (syntaxList 15 15 15 []),
             (token CloseParenToken [] 15 15 16)])]
         [(token AtToken [] 9 10 11),
          (Node CallExpression 11 11 16 []
            None None None []
            [(token Identifier ''dec'' 11 11 14)]
            [(token Identifier ''dec'' 11 11 14),
             (token OpenParenToken [] 14 14 15),
             (syntaxList 15 15 15 []),
             (token CloseParenToken [] 15 15 16)])]),
       (token Identifier ''foo'' 16 16 19),
       (Node Block 21 21 23 []
         None None None [] []
         [(token OpenBraceToken [] 21 21 22),
          (syntaxList 22 22 22 []),
          (token CloseBraceToken [] 22 22 23)])]
      [(syntaxList 9 10 16
         [(Node Decorator 9 10 16 []
            None None None []
            [(Node CallExpression 11 11 16 []
               None None None []
               [(token Identifier ''dec'' 11 11 14)]
               [(token Identifier ''dec'' 11 11 14),
                (token OpenParenToken [] 14 14 15),
                (syntaxList 15 15 15 []),
                (token CloseParenToken [] 15 15 16)])]
            [(token AtToken [] 9 10 11),
             (Node CallExpression 11 11 16 []
               None None None []
               [(token Identifier ''dec'' 11 11 14)]
               [(token Identifier ''dec'' 11 11 14),
                (token OpenParenToken [] 14 14 15),
                (syntaxList 15 15 15 []),
                (token CloseParenToken [] 15 15 16)])])]),
       (token Identifier ''foo'' 16 16 19),
       (token OpenParenToken [] 19 19 20),
       (syntaxList 20 20 20 []),
       (token CloseParenToken [] 20 20 21),
       (Node Block 21 21 23 []
         None None None [] []
         [(token OpenBraceToken [] 21 21 22),
          (syntaxList 22 22 22 []),
          (token CloseBraceToken [] 22 22 23)])])"

definition tightFile :: Node where
  "tightFile =
    (Node SourceFile 0 0 25 []
      None None None []
      [(Node ClassDeclaration 0 0 25 []
         None None
         (Some (token Identifier ''A'' 5 6 7))
         [tightMethod]
         [(token Identifier ''A'' 5 6 7),
          tightMethod]
         [(token ClassKeyword [] 0 0 5),
          (token Identifier ''A'' 5 6 7),
          (token OpenBraceToken [] 7 8 9),
          (syntaxList 9 10 23
            [tightMethod]),
          (token CloseBraceToken [] 23 24 25)]),
       (token EndOfFileToken [] 25 25 25)]
      [(syntaxList 0 0 25
         [(Node ClassDeclaration 0 0 25 []
            None None
            (Some (token Identifier ''A'' 5 6 7))
            [tightMethod]
            [(token Identifier ''A'' 5 6 7),
             tightMethod]
            [(token ClassKeyword [] 0 0 5),
             (token Identifier ''A'' 5 6 7),
             (token OpenBraceToken [] 7 8 9),
             (syntaxList 9 10 23
               [tightMethod]),
             (token CloseBraceToken [] 23 24 25)])]),
       (token EndOfFileToken [] 25 25 25)])"

text \<open>The trees of the source text \<^verbatim>\<open>class A { \<acute>foo\<acute>() {} }\<close>, a method whose name is a string literal.\<close>

definition quotedMethod :: Node where
  "quotedMethod =
    (Node MethodDeclaration 9 10 20 []
      None None
      (Some (token StringLiteral ''foo'' 9 10 15))
      []
      [(token StringLiteral ''foo'' 9 10 15),
       (Node Block 17 18 20 []
         None None None [] []
         [(token OpenBraceToken [] 17 18 19),
          (syntaxList 19 19 19 []),
          (token CloseBraceToken [] 19 19 20)])]
      [(token StringLiteral ''foo'' 9 10 15),
       (token OpenParenToken [] 15 15 16),
       (syntaxList 16 16 16 []),
       (token CloseParenToken [] 16 16 17),
       (Node Block 17 18 20 []
         None None None [] []
         [(token OpenBraceToken [] 17 18 19),
          (syntaxList 19 19 19 []),
          (token CloseBraceToken [] 19 19 20)])])"

definition quotedFile :: Node where
  "quotedFile =
    (Node SourceFile 0 0 22 []
      None None None []
      [(Node ClassDeclaration 0 0 22 []
         None None
         (Some (token Identifier ''A'' 5 6 7))
         [quotedMethod]
         [(token Identifier ''A'' 5 6 7),
          quotedMethod]
         [(token ClassKeyword [] 0 0 5),
          (token Identifier ''A'' 5 6 7),
          (token OpenBraceToken [] 7 8 9),
          (syntaxList 9 10 20
            [quotedMethod]),
          (token CloseBraceToken [] 20 21 22)]),
       (token EndOfFileToken [] 22 22 22)]
      [(syntaxList 0 0 22
         [(Node ClassDeclaration 0 0 22 []
            None None
            (Some (token Identifier ''A'' 5 6 7))
            [quotedMethod]
            [(token Identifier ''A'' 5 6 7),
             quotedMethod]
            [(token ClassKeyword [] 0 0 5),
             (token Identifier ''A'' 5 6 7),
             (token OpenBraceToken [] 7 8 9),
             (syntaxList 9 10 20
               [quotedMethod]),
             (token CloseBraceToken [] 20 21 22)])]),
       (token EndOfFileToken [] 22 22 22)])"

text \<open>The trees of the source text \<^verbatim>\<open>class A { @dec foo() {} private bar() {} baz: string; @dec qux: string; }\<close>.\<close>

definition fooMethod :: Node where
  "fooMethod =
    (Node MethodDeclaration 9 10 23 []
      (Some (NodeArray [(Node Decorator 9 10 14 []
           None None None []
           [(token Identifier ''dec'' 11 11 14)]
           [(token AtToken [] 9 10 11),
            (token Identifier ''dec'' 11 11 14)])] 9 14))
      None
      (Some (token Identifier ''foo'' 14 15 18))
      []
      [(Node Decorator 9 10 14 []
         None None None []
         [(token Identifier ''dec'' 11 11 14)]
         [(token AtToken [] 9 10 11),
          (token Identifier ''dec'' 11 11 14)]),
       (token Identifier ''foo'' 14 15 18),
       (Node Block 20 21 23 []
         None None None [] []
         [(token OpenBraceToken [] 20 21 22),
          (syntaxList 22 22 22 []),
          (token CloseBraceToken [] 22 22 23)])]
      [(syntaxList 9 10 14
         [(Node Decorator 9 10 14 []
            None None None []
            [(token Identifier ''dec'' 11 11 14)]
            [(token AtToken [] 9 10 11),
             (token Identifier ''dec'' 11 11 14)])]),
       (token Identifier ''foo'' 14 15 18),
       (token OpenParenToken [] 18 18 19),
       (syntaxList 19 19 19 []),
       (token CloseParenToken [] 19 19 20),
       (Node Block 20 21 23 []
         None None None [] []
         [(token OpenBraceToken [] 20 21 22),
          (syntaxList 22 22 22 []),
          (token CloseBraceToken [] 22 22 23)])])"

definition barMethod :: Node where
  "barMethod =
    (Node MethodDeclaration 23 24 40 []
      None
      (Some (NodeArray [(token PrivateKeyword [] 23 24 31)] 23 31))
      (Some (token Identifier ''bar'' 31 32 35))
      []
      [(token PrivateKeyword [] 23 24 31),
       (token Identifier ''bar'' 31 32 35),
       (Node Block 37 38 40 []
         None None None [] []
         [(token OpenBraceToken [] 37 38 39),
          (syntaxList 39 39 39 []),
          (token CloseBraceToken [] 39 39 40)])]
      [(syntaxList 23 24 31
         [(token PrivateKeyword [] 23 24 31)]),
       (token Identifier ''bar'' 31 32 35),
       (token OpenParenToken [] 35 35 36),
       (syntaxList 36 36 36 []),
       (token CloseParenToken [] 36 36 37),
       (Node Block 37 38 40 []
         None None None [] []
         [(token OpenBraceToken [] 37 38 39),
          (syntaxList 39 39 39 []),
          (token CloseBraceToken [] 39 39 40)])])"

definition bazProperty :: Node where
  "bazProperty =
    (Node PropertyDeclaration 40 41 53 []
      None None
      (Some (token Identifier ''baz'' 40 41 44))
      []
      [(token Identifier ''baz'' 40 41 44),
       (token StringKeyword [] 45 46 52)]
      [(token Identifier ''baz'' 40 41 44),
       (token ColonToken [] 44 44 45),
       (token StringKeyword [] 45 46 52),
       (token SemicolonToken [] 52 52 53)])"

definition quxProperty :: Node where
  "quxProperty =
    (Node PropertyDeclaration 53 54 71 []
      (Some (NodeArray [(Node Decorator 53 54 58 []
           None None None []
           [(token Identifier ''dec'' 55 55 58)]
           [(token AtToken [] 53 54 55),
            (token Identifier ''dec'' 55 55 58)])] 53 58))
      None
      (Some (token Identifier ''qux'' 58 59 62))
      []
      [(Node Decorator 53 54 58 []
         None None None []
         [(token Identifier ''dec'' 55 55 58)]
         [(token AtToken [] 53 54 55),
          (token Identifier ''dec'' 55 55 58)]),
       (token Identifier ''qux'' 58 59 62),
       (token StringKeyword [] 63 64 70)]
      [(syntaxList 53 54 58
         [(Node Decorator 53 54 58 []
            None None None []
            [(token Identifier ''dec'' 55 55 58)]
            [(token AtToken [] 53 54 55),
             (token Identifier ''dec'' 55 55 58)])]),
       (token Identifier ''qux'' 58 59 62),
       (token ColonToken [] 62 62 63),
       (token StringKeyword [] 63 64 70),
       (token SemicolonToken [] 70 70 71)])"

definition membersClass :: Node where
  "membersClass =
    (Node ClassDeclaration 0 0 73 []
      None None
      (Some (token Identifier ''A'' 5 6 7))
      [fooMethod,
       barMethod,
       bazProperty,
       quxProperty]
      [(token Identifier ''A'' 5 6 7),
       fooMethod,
       barMethod,
       bazProperty,
       quxProperty]
      [(token ClassKeyword [] 0 0 5),
       (token Identifier ''A'' 5 6 7),
       (token OpenBraceToken [] 7 8 9),
       (syntaxList 9 10 71
         [fooMethod,
          barMethod,
          bazProperty,
          quxProperty]),
       (token CloseBraceToken [] 71 72 73)])"

definition membersFile :: Node where
  "membersFile =
    (Node SourceFile 0 0 73 []
      None None None []
      [membersClass,
       (token EndOfFileToken [] 73 73 73)]
      [(syntaxList 0 0 73
         [membersClass]),
       (token EndOfFileToken [] 73 73 73)])"


text \<open>The trees of the source text \<^verbatim>\<open>class A { public foo() { class B { bar() {} } } }\<close>, a class inside a method body.\<close>

definition innerMethod :: Node where
  "innerMethod =
    (Node MethodDeclaration 34 35 43 []
      None None
      (Some (token Identifier ''bar'' 34 35 38))
      []
      [(token Identifier ''bar'' 34 35 38),
       (Node Block 40 41 43 []
         None None None [] []
         [(token OpenBraceToken [] 40 41 42),
          (syntaxList 42 42 42 []),
          (token CloseBraceToken [] 42 42 43)])]
      [(token Identifier ''bar'' 34 35 38),
       (token OpenParenToken [] 38 38 39),
       (syntaxList 39 39 39 []),
       (token CloseParenToken [] 39 39 40),
       (Node Block 40 41 43 []
         None None None [] []
         [(token OpenBraceToken [] 40 41 42),
          (syntaxList 42 42 42 []),
          (token CloseBraceToken [] 42 42 43)])])"

definition innerClass :: Node where
  "innerClass =
    (Node ClassDeclaration 24 25 45 []
      None None
      (Some (token Identifier ''B'' 30 31 32))
      [innerMethod]
      [(token Identifier ''B'' 30 31 32),
       innerMethod]
      [(token ClassKeyword [] 24 25 30),
       (token Identifier ''B'' 30 31 32),
       (token OpenBraceToken [] 32 33 34),
       (syntaxList 34 35 43
         [innerMethod]),
       (token CloseBraceToken [] 43 44 45)])"

definition outerMethod :: Node where
  "outerMethod =
    (Node MethodDeclaration 9 10 47 []
      None
      (Some (NodeArray [(token PublicKeyword [] 9 10 16)] 9 16))
      (Some (token Identifier ''foo'' 16 17 20))
      []
      [(token PublicKeyword [] 9 10 16),
       (token Identifier ''foo'' 16 17 20),
       (Node Block 22 23 47 []
         None None None []
         [innerClass]
         [(token OpenBraceToken [] 22 23 24),
          (syntaxList 24 25 45
            [innerClass]),
          (token CloseBraceToken [] 45 46 47)])]
      [(syntaxList 9 10 16
         [(token PublicKeyword [] 9 10 16)]),
       (token Identifier ''foo'' 16 17 20),
       (token OpenParenToken [] 20 20 21),
       (syntaxList 21 21 21 []),
       (token CloseParenToken [] 21 21 22),
       (Node Block 22 23 47 []
         None None None []
         [innerClass]
         [(token OpenBraceToken [] 22 23 24),
          (syntaxList 24 25 45
            [innerClass]),
          (token CloseBraceToken [] 45 46 47)])])"

definition outerClass :: Node where
  "outerClass =
    (Node ClassDeclaration 0 0 49 []
      None None
      (Some (token Identifier ''A'' 5 6 7))
      [outerMethod]
      [(token Identifier ''A'' 5 6 7),
       outerMethod]
      [(token ClassKeyword [] 0 0 5),
       (token Identifier ''A'' 5 6 7),
       (token OpenBraceToken [] 7 8 9),
       (syntaxList 9 10 47
         [outerMethod]),
       (token CloseBraceToken [] 47 48 49)])"

definition nestedFile :: Node where
  "nestedFile =
    (Node SourceFile 0 0 49 []
      None None None []
      [outerClass,
       (token EndOfFileToken [] 49 49 49)]
      [(syntaxList 0 0 49
         [outerClass]),
       (token EndOfFileToken [] 49 49 49)])"

text \<open>
  The trees of the source text \<^verbatim>\<open>class A { /** doc */ @dec /* c */ static foo() {} }\<close>: the method carries a JSDoc comment,
  which \<^verbatim>\<open>getChildren\<close> lists first, and a plain comment after its decorator.
\<close>

definition documentedMethod :: Node where
  "documentedMethod =
    (Node MethodDeclaration 9 21 49 []
      (Some (NodeArray [(Node Decorator 9 21 25 []
           None None None []
           [(token Identifier ''dec'' 22 22 25)]
           [(token AtToken [] 9 21 22),
            (token Identifier ''dec'' 22 22 25)])] 9 25))
      (Some (NodeArray [(token StaticKeyword [] 25 34 40)] 25 40))
      (Some (token Identifier ''foo'' 40 41 44))
      []
      [(Node Decorator 9 21 25 []
         None None None []
         [(token Identifier ''dec'' 22 22 25)]
         [(token AtToken [] 9 21 22),
          (token Identifier ''dec'' 22 22 25)]),
       (token StaticKeyword [] 25 34 40),
       (token Identifier ''foo'' 40 41 44),
       (Node Block 46 47 49 []
         None None None [] []
         [(token OpenBraceToken [] 46 47 48),
          (syntaxList 48 48 48 []),
          (token CloseBraceToken [] 48 48 49)])]
      [(Node JSDocComment 10 10 20 []
         None None None [] [] []),
       (syntaxList 9 21 25
         [(Node Decorator 9 21 25 []
            None None None []
            [(token Identifier ''dec'' 22 22 25)]
            [(token AtToken [] 9 21 22),
             (token Identifier ''dec'' 22 22 25)])]),
       (syntaxList 25 34 40
         [(token StaticKeyword [] 25 34 40)]),
       (token Identifier ''foo'' 40 41 44),
       (token OpenParenToken [] 44 44 45),
       (syntaxList 45 45 45 []),
       (token CloseParenToken [] 45 45 46),
       (Node Block 46 47 49 []
         None None None [] []
         [(token OpenBraceToken [] 46 47 48),
          (syntaxList 48 48 48 []),
          (token CloseBraceToken [] 48 48 49)])])"

definition documentedFile :: Node where
  "documentedFile =
    (Node SourceFile 0 0 51 []
      None None None []
      [(Node ClassDeclaration 0 0 51 []
         None None
         (Some (token Identifier ''A'' 5 6 7))
         [documentedMethod]
         [(token Identifier ''A'' 5 6 7),
          documentedMethod]
         [(token ClassKeyword [] 0 0 5),
          (token Identifier ''A'' 5 6 7),
          (token OpenBraceToken [] 7 8 9),
          (syntaxList 9 21 49
            [documentedMethod]),
          (token CloseBraceToken [] 49 50 51)]),
       (token EndOfFileToken [] 51 51 51)]
      [(syntaxList 0 0 51
         [(Node ClassDeclaration 0 0 51 []
            None None
            (Some (token Identifier ''A'' 5 6 7))
            [documentedMethod]
            [(token Identifier ''A'' 5 6 7),
             documentedMethod]
            [(token ClassKeyword [] 0 0 5),
             (token Identifier ''A'' 5 6 7),
             (token OpenBraceToken [] 7 8 9),
             (syntaxList 9 21 49
               [documentedMethod]),
             (token CloseBraceToken [] 49 50 51)])]),
       (token EndOfFileToken [] 51 51 51)])"

section \<open>Facts about the check and the walk\<close>

lemma visibility_iff:
  "hasVisibilityModifier node \<longleftrightarrow>
     hasModifier (modifiers node) [ProtectedKeyword, PrivateKeyword] \<or> getModifier node PublicKeyword \<noteq> None"
proof (cases "modifiers node")
  case None
  then show ?thesis
    by (simp add: hasVisibilityModifier_def hasModifier_def getModifier_def)
next
  case (Some a)
  have "(find (\<lambda>m. kind m = PublicKeyword) (elements a) \<noteq> None) =
          (\<exists>m \<in> set (elements a). kind m = PublicKeyword)"
    by (auto simp: find_None_iff)
  with Some show ?thesis
    by (auto simp: hasVisibilityModifier_def hasModifier_def getModifier_def list_ex_iff)
qed

lemma check_silent: "hasVisibilityModifier node \<Longrightarrow> check node ctx = Inr ctx"
  by (auto simp: visibility_iff check_def split: option.splits)

lemma typeToString_not_Constructor: "typeToString node = Inr label \<Longrightarrow> kind node \<noteq> Constructor"
  by (auto simp: typeToString_def)

lemma check_emits:
  assumes "\<not> hasVisibilityModifier node"
    and "typeToString node = Inr label"
    and "getInsertionPosition node (sourceFile ctx) = Inr p"
  shows "check node ctx =
           Inr (addFailure (getStart (locationNode node)) (getEnd (locationNode node))
                  (FAILURE_STRING_FACTORY label (nameText node))
                  (Some (appendText p ''public '')) ctx)"
  using assms typeToString_not_Constructor[OF assms(2)]
  by (auto simp: visibility_iff check_def addFailureAtNode_def locationNode_def nameText_def
           split: option.splits)

lemma check_throws_label:
  "\<not> hasVisibilityModifier node \<Longrightarrow> typeToString node = Inl e \<Longrightarrow> check node ctx = Inl e"
  by (auto simp: visibility_iff check_def split: option.splits)

lemma check_throws_position:
  "\<not> hasVisibilityModifier node \<Longrightarrow> typeToString node = Inr label \<Longrightarrow>
   getInsertionPosition node (sourceFile ctx) = Inl e \<Longrightarrow> check node ctx = Inl e"
  by (auto simp: visibility_iff check_def split: option.splits)


lemma classSteps_append:
  "classSteps (xs @ ys) ctx =
     (case classSteps xs ctx of Inl e \<Rightarrow> Inl e | Inr ctx' \<Rightarrow> classSteps ys ctx')"
  by (induction xs arbitrary: ctx) (auto split: sum.splits)

lemma recur_classSteps:
  "recur node ctx =
     (case classSteps (preorder node) ctx of Inl e \<Rightarrow> Inl e | Inr ctx' \<Rightarrow> Inr (None, ctx'))"
  "forEachChild_recur ns ctx =
     (case classSteps (preorders ns) ctx of Inl e \<Rightarrow> Inl e | Inr ctx' \<Rightarrow> Inr (None, ctx'))"
proof (induction node ctx and ns ctx rule: recur_forEachChild_recur.induct)
  case (1 node ctx)
  show ?case
  proof (cases "classStep node ctx")
    case (Inl e)
    then show ?thesis by (simp add: classStep_def)
  next
    case (Inr ctx')
    with "1.IH"[of ctx'] show ?thesis by (simp add: classStep_def)
  qed
next
  case (2 ctx)
  show ?case by simp
next
  case (3 child rest ctx)
  show ?case
  proof (cases "classSteps (preorder child) ctx")
    case (Inl e)
    with "3.IH"(1) have "recur child ctx = Inl e" by simp
    with Inl show ?thesis by (simp add: classSteps_append del: recur.simps preorder.simps)
  next
    case (Inr ctx')
    with "3.IH"(1) have r: "recur child ctx = Inr (None, ctx')" by simp
    from "3.IH"(2)[OF r refl] Inr r show ?thesis
      by (simp add: classSteps_append del: recur.simps preorder.simps)
  qed
qed

lemma walk_classSteps:
  "walk ctx =
     (case classSteps (preorders (forEachChild (sourceFile ctx))) ctx of
        Inl e \<Rightarrow> Inl e
      | Inr ctx' \<Rightarrow> Inr (None, ctx'))"
  by (simp add: walk_def recur_classSteps)


lemma check_frame:
  "check m ctx =
     (case check m \<lparr>sourceFile = sourceFile ctx, failures = []\<rparr> of
        Inl e \<Rightarrow> Inl e
      | Inr c \<Rightarrow> Inr (ctx\<lparr>failures := failures ctx @ failures c\<rparr>))"
  by (simp add: check_def addFailureAtNode_def addFailure_def Let_def
           split: option.splits sum.splits)

lemma shouldCheck_label: "shouldCheck m \<Longrightarrow> \<exists>label. typeToString m = Inr label"
  by (cases "kind m") (simp_all add: shouldCheck_def typeToString_def)

lemma insertion_defined:
  "tokenAfterDecorators m \<Longrightarrow> \<exists>p. getInsertionPosition m sf = Inr p"
  by (auto simp: tokenAfterDecorators_def getInsertionPosition_def split: option.splits)

lemma check_total:
  assumes "shouldCheck m" and "tokenAfterDecorators m"
  shows "\<exists>c. check m ctx = Inr c"
proof (cases "hasVisibilityModifier m")
  case True
  then show ?thesis by (simp add: check_silent)
next
  case False
  from shouldCheck_label[OF assms(1)] obtain label where l: "typeToString m = Inr label" ..
  from insertion_defined[OF assms(2)] obtain p where p: "getInsertionPosition m (sourceFile ctx) = Inr p" ..
  from check_emits[OF False l p] show ?thesis by simp
qed

lemma loop_body_failures:
  assumes "tokenAfterDecorators m"
  shows "(if shouldCheck m then check m ctx else Inr ctx) =
           Inr (ctx\<lparr>failures := failures ctx @ memberFailures (sourceFile ctx) m\<rparr>)"
proof (cases "shouldCheck m")
  case False
  then show ?thesis by (simp add: memberFailures_def)
next
  case True
  with assms check_total[of m "\<lparr>sourceFile = sourceFile ctx, failures = []\<rparr>"]
  obtain c where c: "check m \<lparr>sourceFile = sourceFile ctx, failures = []\<rparr> = Inr c" by auto
  then have "check m ctx = Inr (ctx\<lparr>failures := failures ctx @ failures c\<rparr>)"
    by (subst check_frame) simp
  with True c show ?thesis by (simp add: memberFailures_def)
qed

lemma checkMembers_failures:
  assumes "\<forall>m \<in> set ms. tokenAfterDecorators m"
  shows "checkMembers ms ctx =
           Inr (ctx\<lparr>failures := failures ctx @ concat (map (memberFailures (sourceFile ctx)) ms)\<rparr>)"
  using assms
proof (induction ms arbitrary: ctx)
  case Nil
  show ?case by simp
next
  case (Cons m ms)
  then have "tokenAfterDecorators m" and rest: "\<forall>m \<in> set ms. tokenAfterDecorators m"
    by simp_all
  from loop_body_failures[OF this(1), of ctx] Cons.IH[OF rest]
  show ?case by simp
qed

lemma classSteps_failures:
  assumes "\<forall>m \<in> set (concat (map members (filter isClassLikeDeclaration ns))). tokenAfterDecorators m"
  shows "classSteps ns ctx =
           Inr (ctx\<lparr>failures := failures ctx @
                  concat (map (memberFailures (sourceFile ctx))
                    (concat (map members (filter isClassLikeDeclaration ns))))\<rparr>)"
  using assms
proof (induction ns arbitrary: ctx)
  case Nil
  show ?case by simp
next
  case (Cons n ns)
  show ?case
  proof (cases "isClassLikeDeclaration n")
    case False
    with Cons show ?thesis by (simp add: classStep_def)
  next
    case True
    with Cons.prems have here: "\<forall>m \<in> set (members n). tokenAfterDecorators m"
      and rest: "\<forall>m \<in> set (concat (map members (filter isClassLikeDeclaration ns))). tokenAfterDecorators m"
      by simp_all
    from True checkMembers_failures[OF here, of ctx] Cons.IH[OF rest]
    show ?thesis by (simp add: classStep_def)
  qed
qed

lemma Rule_apply_failures:
  assumes "\<forall>m \<in> set (classMembers sf). tokenAfterDecorators m"
  shows "Rule_apply sf = Inr (concat (map (memberFailures sf) (classMembers sf)))"
  using classSteps_failures[of "preorders (forEachChild sf)" "\<lparr>sourceFile = sf, failures = []\<rparr>"] assms
  by (simp add: Rule_apply_def walk_classSteps classMembers_def)

lemma memberFailures_unchecked: "\<not> shouldCheck m \<Longrightarrow> memberFailures sf m = []"
  by (simp add: memberFailures_def)

lemma memberFailures_silent: "hasVisibilityModifier m \<Longrightarrow> memberFailures sf m = []"
  by (simp add: memberFailures_def check_silent)

lemma memberFailures_emits:
  assumes "shouldCheck m" and "\<not> hasVisibilityModifier m"
    and "typeToString m = Inr label" and "getInsertionPosition m sf = Inr p"
  shows "memberFailures sf m =
           [\<lparr>startPosition = min (getStart (locationNode m)) (getEnd sf),
             endPosition = min (getEnd (locationNode m)) (getEnd sf),
             failure = FAILURE_STRING_FACTORY label (nameText m),
             rf_fix = Some (appendText p ''public '')\<rparr>]"
  using assms(1) check_emits[OF assms(2,3), of "\<lparr>sourceFile = sf, failures = []\<rparr>" p] assms(4)
  by (simp add: memberFailures_def addFailure_def Let_def)

lemma check_Inr_cases:
  assumes "check node ctx = Inr ctx'"
  obtains (silent) "hasVisibilityModifier node" and "ctx' = ctx"
  | (emitted) label p where "\<not> hasVisibilityModifier node"
      and "typeToString node = Inr label"
      and "getInsertionPosition node (sourceFile ctx) = Inr p"
      and "ctx' = addFailure (getStart (locationNode node)) (getEnd (locationNode node))
                    (FAILURE_STRING_FACTORY label (nameText node))
                    (Some (appendText p ''public '')) ctx"
proof (cases "hasVisibilityModifier node")
  case True
  with assms silent show ?thesis by (simp add: check_silent)
next
  case False
  show ?thesis
  proof (cases "typeToString node")
    case (Inl e)
    from check_throws_label[OF False Inl, of ctx] assms show ?thesis by simp
  next
    case (Inr label)
    show ?thesis
    proof (cases "getInsertionPosition node (sourceFile ctx)")
      case (Inl e)
      from check_throws_position[OF False Inr Inl] assms show ?thesis by simp
    next
      case p: (Inr p)
      from check_emits[OF False Inr p] assms emitted[OF False Inr p] show ?thesis by simp
    qed
  qed
qed

lemma addFailure_failures:
  "failures (addFailure s e msg fx ctx) =
     failures ctx @ [\<lparr>startPosition = min s (getEnd (sourceFile ctx)),
                      endPosition = min e (getEnd (sourceFile ctx)),
                      failure = msg, rf_fix = fx\<rparr>]"
  by (simp add: addFailure_def Let_def)

text \<open>A member that carries \<^verbatim>\<open>public\<close> is not reported, whatever else it carries.\<close>

lemma public_member_silent:
  assumes "modifiers m = Some a" and "list_ex (\<lambda>x. kind x = PublicKeyword) (elements a)"
  shows "check m ctx = Inr ctx" and "memberFailures sf m = []"
proof -
  from assms have "hasVisibilityModifier m"
    by (auto simp: hasVisibilityModifier_def list_ex_iff)
  then show "check m ctx = Inr ctx" and "memberFailures sf m = []"
    by (simp_all add: check_silent memberFailures_silent)
qed

subsection \<open>The token after the decorators\<close>

declare wellNested.simps(1) [simp del] tokensAfter.simps(1) [simp del]

lemma find_tokensAfterList:
  assumes "find (\<lambda>c. getEnd c > p \<and> kind c \<noteq> JSDocComment) cs = Some c"
  shows "\<exists>ys. tokensAfterList cs p =
           (if isTokenKind (kind c) then [c] else tokensAfter c p) @ ys"
  using assms
proof (induction cs)
  case Nil
  then show ?case by simp
next
  case (Cons a cs)
  show ?case
  proof (cases "getEnd a > p \<and> kind a \<noteq> JSDocComment")
    case True
    with Cons.prems have "a = c" by simp
    with True show ?thesis by simp
  next
    case False
    with Cons.prems have "find (\<lambda>c. getEnd c > p \<and> kind c \<noteq> JSDocComment) cs = Some c"
      by auto
    from Cons.IH[OF this] obtain ys
      where "tokensAfterList cs p = (if isTokenKind (kind c) then [c] else tokensAfter c p) @ ys" ..
    moreover from False have "tokensAfterList (a # cs) p = tokensAfterList cs p"
      by auto
    ultimately have "tokensAfterList (a # cs) p =
        (if isTokenKind (kind c) then [c] else tokensAfter c p) @ ys"
      by (simp only:)
    then show ?thesis by (rule exI)
  qed
qed

lemma worker_first_token:
  "getTokenAtPositionWorker n p = Some t \<Longrightarrow> \<exists>rest. tokensAfter n p = t # rest"
proof (induction n p rule: getTokenAtPositionWorker.induct)
  case (1 node p)
  let ?P = "\<lambda>child. getEnd child > p \<and> kind child \<noteq> JSDocComment"
  from "1.prems" obtain c where f: "find ?P (getChildren node) = Some c"
    by (subst (asm) getTokenAtPositionWorker.simps) (auto split: option.splits)
  from find_tokensAfterList[OF f] obtain ys
    where ys: "tokensAfterList (getChildren node) p =
                 (if isTokenKind (kind c) then [c] else tokensAfter c p) @ ys" ..
  show ?case
  proof (cases "isTokenKind (kind c)")
    case True
    with "1.prems" f have "t = c"
      by (subst (asm) getTokenAtPositionWorker.simps) simp
    with True ys show ?thesis by (simp add: tokensAfter.simps(1))
  next
    case False
    with "1.prems" f have "getTokenAtPositionWorker c p = Some t"
      by (subst (asm) getTokenAtPositionWorker.simps) simp
    from "1.IH"[OF f False this] obtain rest where "tokensAfter c p = t # rest" ..
    with False ys show ?thesis by (simp add: tokensAfter.simps(1))
  qed
qed

lemma wellNested_range: "wellNested n \<Longrightarrow> pos n \<le> getStart n \<and> getStart n \<le> getEnd n"
  by (simp add: wellNested.simps(1))

lemma wellNested_children: "wellNested n \<Longrightarrow> wellNestedList (pos n) (getEnd n) (getChildren n)"
  by (simp add: wellNested.simps(1))

lemma wellNested_token: "wellNested n \<Longrightarrow> isTokenKind (kind n) \<Longrightarrow> getChildren n = []"
  by (simp add: wellNested.simps(1))

lemma wellNestedList_member:
  "wellNestedList lo hi cs \<Longrightarrow> c \<in> set cs \<Longrightarrow> kind c \<noteq> JSDocComment \<Longrightarrow>
     lo \<le> pos c \<and> getEnd c \<le> hi \<and> wellNested c"
  by (induction cs) auto

lemma wellNested_child:
  assumes "wellNested n" and "c \<in> set (getChildren n)" and "kind c \<noteq> JSDocComment"
  shows "pos n \<le> pos c" and "getEnd c \<le> getEnd n" and "wellNested c"
  using wellNestedList_member[OF wellNested_children[OF assms(1)] assms(2,3)] by simp_all

lemma find_split:
  "find P cs = Some c \<Longrightarrow> \<exists>pre post. cs = pre @ c # post \<and> P c \<and> (\<forall>y \<in> set pre. \<not> P y)"
proof (induction cs)
  case Nil
  then show ?case by simp
next
  case (Cons a cs)
  show ?case
  proof (cases "P a")
    case True
    with Cons.prems have "a = c" by simp
    with True have "a # cs = [] @ c # cs \<and> P c \<and> (\<forall>y \<in> set []. \<not> P y)" by simp
    then show ?thesis by blast
  next
    case False
    with Cons.prems have "find P cs = Some c" by simp
    from Cons.IH[OF this] obtain pre post
      where "cs = pre @ c # post" "P c" "\<forall>y \<in> set pre. \<not> P y" by blast
    with False have "a # cs = (a # pre) @ c # post \<and> P c \<and> (\<forall>y \<in> set (a # pre). \<not> P y)"
      by simp
    then show ?thesis by blast
  qed
qed

text \<open>The token found lies inside the node searched, and starts after its own trivia.\<close>

lemma worker_inside:
  "getTokenAtPositionWorker n p = Some t \<Longrightarrow> wellNested n \<Longrightarrow>
     pos n \<le> pos t \<and> getEnd t \<le> getEnd n \<and> wellNested t"
proof (induction n p rule: getTokenAtPositionWorker.induct)
  case (1 node p)
  let ?P = "\<lambda>child. getEnd child > p \<and> kind child \<noteq> JSDocComment"
  from "1.prems"(1) obtain c where f: "find ?P (getChildren node) = Some c"
    by (subst (asm) getTokenAtPositionWorker.simps) (auto split: option.splits)
  from find_split[OF f] have c: "c \<in> set (getChildren node)" "kind c \<noteq> JSDocComment"
    by auto
  note in_c = wellNested_child[OF "1.prems"(2) c]
  show ?case
  proof (cases "isTokenKind (kind c)")
    case True
    with "1.prems"(1) f have "t = c"
      by (subst (asm) getTokenAtPositionWorker.simps) simp
    with in_c show ?thesis by simp
  next
    case False
    with "1.prems"(1) f have "getTokenAtPositionWorker c p = Some t"
      by (subst (asm) getTokenAtPositionWorker.simps) simp
    from "1.IH"[OF f False this in_c(3)] in_c show ?thesis by simp
  qed
qed


lemma worker_step:
  assumes "getTokenAtPositionWorker n p = Some t"
  obtains c where "find (\<lambda>c. getEnd c > p \<and> kind c \<noteq> JSDocComment) (getChildren n) = Some c"
    and "isTokenKind (kind c) \<Longrightarrow> t = c"
    and "\<not> isTokenKind (kind c) \<Longrightarrow> getTokenAtPositionWorker c p = Some t"
proof -
  from assms obtain c
    where f: "find (\<lambda>c. getEnd c > p \<and> kind c \<noteq> JSDocComment) (getChildren n) = Some c"
    by (subst (asm) getTokenAtPositionWorker.simps) (auto split: option.splits)
  from assms f have "isTokenKind (kind c) \<Longrightarrow> t = c"
    by (subst (asm) getTokenAtPositionWorker.simps) simp
  moreover from assms f have "\<not> isTokenKind (kind c) \<Longrightarrow> getTokenAtPositionWorker c p = Some t"
    by (subst (asm) getTokenAtPositionWorker.simps) simp
  ultimately show thesis using f that by blast
qed

lemma token_not_JSDoc: "isTokenKind k \<Longrightarrow> k \<noteq> JSDocComment"
  by auto

text \<open>
  Among children in the order of the text, the first one that ends after an offset
  begins after every child that ends at the offset or before it, and ends before every
  other child that ends after the offset begins.
\<close>

lemma first_past:
  assumes ord: "inOrder (filter (\<lambda>c. kind c \<noteq> JSDocComment) cs)"
    and f: "find (\<lambda>c. getEnd c > p \<and> kind c \<noteq> JSDocComment) cs = Some c0"
  shows "x \<in> set cs \<Longrightarrow> kind x \<noteq> JSDocComment \<Longrightarrow> getEnd x > p \<Longrightarrow> x = c0 \<or> getEnd c0 \<le> pos x"
    and "y \<in> set cs \<Longrightarrow> kind y \<noteq> JSDocComment \<Longrightarrow> getEnd y \<le> p \<Longrightarrow> pos y \<le> getEnd y \<Longrightarrow>
           getEnd y \<le> pos c0"
proof -
  let ?Q = "\<lambda>c. kind c \<noteq> JSDocComment"
  from find_split[OF f] obtain pre post where cs: "cs = pre @ c0 # post"
    and c0: "getEnd c0 > p" "?Q c0" and pre: "\<forall>y \<in> set pre. \<not> (getEnd y > p \<and> ?Q y)"
    by blast
  from c0(2) have "filter ?Q cs = filter ?Q pre @ c0 # filter ?Q post"
    by (simp add: cs)
  with ord have before: "\<forall>a \<in> set (filter ?Q pre). getEnd a \<le> pos c0"
    and after: "\<forall>b \<in> set (filter ?Q post). getEnd c0 \<le> pos b"
    by (auto simp: inOrder_def sorted_wrt_append)
  show "x = c0 \<or> getEnd c0 \<le> pos x" if "x \<in> set cs" "?Q x" "getEnd x > p"
  proof -
    from that pre have "x \<notin> set pre" by blast
    with that(1) have "x = c0 \<or> x \<in> set post" by (auto simp: cs)
    with after that(2) show ?thesis by auto
  qed
  show "getEnd y \<le> pos c0" if "y \<in> set cs" "?Q y" "getEnd y \<le> p" "pos y \<le> getEnd y"
  proof -
    from that(3) c0(1) have "y \<noteq> c0" by auto
    with that(1) consider "y \<in> set pre" | "y \<in> set post" by (auto simp: cs)
    then show ?thesis
    proof cases
      case 1
      with before that(2) show ?thesis by simp
    next
      case 2
      with after that(2) have "getEnd c0 \<le> pos y" by simp
      with that(3,4) c0(1) show ?thesis by simp
    qed
  qed
qed

lemma insertion_bounds:
  assumes lay: "laidOutAsParsed member ds"
    and tok: "getTokenAtPosition member (array_end ds) = Some t"
  shows "getEnd (last (elements ds)) \<le> getStart t"
    and "\<exists>rest. tokensAfter member (array_end ds) = t # rest"
    and "modifiers member = Some ms \<Longrightarrow> m \<in> set (elements ms) \<Longrightarrow> getStart t \<le> getStart m"
    and "name member = Some nm \<Longrightarrow> getStart t \<le> getStart nm"
    and "x \<in> set (getChildren member) \<Longrightarrow> isTokenKind (kind x) \<Longrightarrow> array_end ds < getEnd x \<Longrightarrow>
           getStart t \<le> getStart x"
proof -
  let ?p = "array_end ds"
  let ?Q = "\<lambda>c. kind c \<noteq> JSDocComment"
  let ?P = "\<lambda>c. getEnd c > ?p \<and> kind c \<noteq> JSDocComment"
  from lay have wf: "wellNested member"
    and ord: "inOrder (filter ?Q (getChildren member))"
    and last: "?p = getEnd (last (elements ds))"
    by (simp_all add: laidOutAsParsed_def)
  from lay obtain sl where sl: "sl \<in> set (getChildren member)" "wrapsArray sl ds"
    by (auto simp: laidOutAsParsed_def list_ex_iff)
  then have "getChildren member \<noteq> []" by auto
  with wellNested_token[OF wf] have "\<not> isTokenKind (kind member)" by blast
  with tok have w: "getTokenAtPositionWorker member ?p = Some t"
    by (simp add: getTokenAtPosition_def split: if_splits)
  from worker_first_token[OF w] show "\<exists>rest. tokensAfter member ?p = t # rest" .
  from w obtain c0 where f: "find ?P (getChildren member) = Some c0"
    and c0_tok: "isTokenKind (kind c0) \<Longrightarrow> t = c0"
    and c0_sub: "\<not> isTokenKind (kind c0) \<Longrightarrow> getTokenAtPositionWorker c0 ?p = Some t"
    by (rule worker_step) blast
  from find_split[OF f] have c0: "c0 \<in> set (getChildren member)" "?Q c0" by auto
  note wf_c0 = wellNested_child[OF wf c0]
  have t_in: "pos c0 \<le> pos t \<and> getEnd t \<le> getEnd c0 \<and> wellNested t"
  proof (cases "isTokenKind (kind c0)")
    case True
    with c0_tok wf_c0 show ?thesis by simp
  next
    case False
    from worker_inside[OF c0_sub[OF False] wf_c0(3)] show ?thesis .
  qed
  then have t_range: "pos t \<le> getStart t" "getStart t \<le> getEnd t"
    using wellNested_range[of t] by simp_all
  \<comment> \<open>the lower bound\<close>
  from sl(2) have sl_q: "?Q sl" and sl_end: "getEnd sl = ?p"
    by (simp_all add: wrapsArray_def)
  from wellNested_child(3)[OF wf sl(1) sl_q] have "pos sl \<le> getEnd sl"
    using wellNested_range[of sl] by simp
  with first_past(2)[OF ord f sl(1) sl_q] sl_end have "?p \<le> pos c0" by simp
  with t_in t_range last show "getEnd (last (elements ds)) \<le> getStart t" by simp
  \<comment> \<open>a child other than the first one past the decorators begins after the token found\<close>
  have other: "getStart t \<le> pos x"
    if "x \<in> set (getChildren member)" "?Q x" "getEnd x > ?p" "x \<noteq> c0" for x
    using first_past(1)[OF ord f that(1,2,3)] that(4) t_in t_range by simp
  \<comment> \<open>token children\<close>
  show "getStart t \<le> getStart x"
    if "x \<in> set (getChildren member)" "isTokenKind (kind x)" "?p < getEnd x" for x
  proof (cases "x = c0")
    case True
    with that(2) c0_tok show ?thesis by simp
  next
    case False
    from that(2) have q: "?Q x" by (rule token_not_JSDoc)
    from other[OF that(1) q that(3) False] wellNested_child(3)[OF wf that(1) q]
    show ?thesis using wellNested_range[of x] by simp
  qed
  \<comment> \<open>the name\<close>
  show "getStart t \<le> getStart nm" if "name member = Some nm"
  proof -
    from lay that have nm: "nm \<in> set (getChildren member)" "?Q nm" "?p \<le> pos nm"
      "pos nm < getEnd nm" "startsWithToken nm"
      by (simp_all add: laidOutAsParsed_def)
    note wf_nm = wellNested_child[OF wf nm(1,2)]
    show ?thesis
    proof (cases "nm = c0")
      case False
      from nm(3,4) have "getEnd nm > ?p" by simp
      from other[OF nm(1,2) this False] wellNested_range[OF wf_nm(3)] show ?thesis by simp
    next
      case True
      show ?thesis
      proof (cases "isTokenKind (kind nm)")
        case tokn: True
        with True c0_tok show ?thesis by simp
      next
        case False
        with nm(5) obtain c cs where kids: "getChildren nm = c # cs"
          and c: "isTokenKind (kind c)" "getStart c = getStart nm" "pos c < getEnd c"
          by (auto simp: startsWithToken_def split: list.splits)
        from c(1) have qc: "?Q c" by (rule token_not_JSDoc)
        from kids have "c \<in> set (getChildren nm)" by simp
        from wellNested_child(1)[OF wf_nm(3) this qc] nm(3) c(3) have "getEnd c > ?p" by simp
        with qc kids have "find ?P (getChildren nm) = Some c" by simp
        with c(1) have "getTokenAtPositionWorker nm ?p = Some c"
          by (subst getTokenAtPositionWorker.simps) simp
        with c0_sub True False have "t = c" by simp
        with c(2) show ?thesis by simp
      qed
    qed
  qed
  \<comment> \<open>the modifiers\<close>
  show "getStart t \<le> getStart m" if "modifiers member = Some ms" "m \<in> set (elements ms)"
  proof -
    from lay that(1) obtain msl where msl: "msl \<in> set (getChildren member)" "wrapsArray msl ms"
      and after: "?p \<le> array_pos ms" and mord: "inOrder (elements ms)"
      and toks: "\<forall>m \<in> set (elements ms). isTokenKind (kind m) \<and> pos m < getEnd m"
      by (auto simp: laidOutAsParsed_def list_ex_iff list_all_iff)
    from msl(2) have q: "?Q msl" and kids: "getChildren msl = elements ms"
      and mpos: "pos msl = array_pos ms" and nontok: "\<not> isTokenKind (kind msl)"
      by (simp_all add: wrapsArray_def)
    note wf_msl = wellNested_child[OF wf msl(1) q]
    have each: "?P m' \<and> pos msl \<le> pos m' \<and> getEnd m' \<le> getEnd msl \<and> wellNested m'
                 \<and> isTokenKind (kind m')"
      if "m' \<in> set (elements ms)" for m'
    proof -
      from toks that have t': "isTokenKind (kind m')" "pos m' < getEnd m'" by simp_all
      from t'(1) have q': "?Q m'" by (rule token_not_JSDoc)
      from that kids have "m' \<in> set (getChildren msl)" by simp
      from wellNested_child[OF wf_msl(3) this q'] t' q' mpos after show ?thesis by simp
    qed
    from each[OF that(2)] have m: "pos msl \<le> pos m" "getEnd m \<le> getEnd msl" "wellNested m"
      "getEnd m > ?p"
      by simp_all
    show ?thesis
    proof (cases "msl = c0")
      case False
      from m(2,4) have "getEnd msl > ?p" by simp
      from other[OF msl(1) q this False] m(1) wellNested_range[OF m(3)] show ?thesis by simp
    next
      case True
      with c0_sub nontok have "getTokenAtPositionWorker msl ?p = Some t" by simp
      then obtain m1 where f1: "find ?P (getChildren msl) = Some m1"
        and m1_tok: "isTokenKind (kind m1) \<Longrightarrow> t = m1"
        by (rule worker_step) blast
      from find_split[OF f1] obtain pre post where split: "elements ms = pre @ m1 # post"
        and none: "\<forall>y \<in> set pre. \<not> ?P y"
        unfolding kids by blast
      have "pre = []"
      proof (rule ccontr)
        assume "pre \<noteq> []"
        then obtain y where "y \<in> set pre" by (cases pre) auto
        with split each[of y] none show False by auto
      qed
      with split have split': "elements ms = m1 # post" by simp
      then have "m1 \<in> set (elements ms)" by simp
      from each[OF this] m1_tok have t: "t = m1" by simp
      show ?thesis
      proof (cases "m = m1")
        case True
        with t show ?thesis by simp
      next
        case False
        with that(2) split' have "m \<in> set post" by simp
        with mord split' have "getEnd m1 \<le> pos m" by (auto simp: inOrder_def)
        with t t_range wellNested_range[OF m(3)] show ?thesis by simp
      qed
    qed
  qed
qed

subsection \<open>The positions of a tree in pre-order\<close>

declare paths.simps(1) [simp del] preorder.simps(1) [simp del]

lemma childAt_simps [simp]:
  "childAt cs [] = None"
  "childAt cs (i # is) = (if i < length cs then nodeAt (cs ! i) is else None)"
  by (simp_all add: childAt_def)

lemma nodeAt_childAt: "nodeAt n (i # is) = childAt (forEachChild n) (i # is)"
  by simp

lemma pathsFrom_heads:
  "p \<in> set (pathsFrom i cs) \<Longrightarrow> \<exists>j js. p = j # js \<and> i \<le> j \<and> j < i + length cs"
proof (induction cs arbitrary: i)
  case Nil
  then show ?case by simp
next
  case (Cons c cs)
  from Cons.prems consider "p \<in> (#) i ` set (paths c)" | "p \<in> set (pathsFrom (Suc i) cs)"
    by auto
  then show ?case
  proof cases
    case 1
    then show ?thesis by auto
  next
    case 2
    from Cons.IH[OF this] show ?thesis by auto
  qed
qed

lemma paths_preorder:
  "map (nodeAt n) (paths n) = map Some (preorder n)"
  "\<forall>pre. length pre = i \<longrightarrow> map (childAt (pre @ cs)) (pathsFrom i cs) = map Some (preorders cs)"
proof (induction n and i cs rule: paths_pathsFrom.induct)
  case (1 n)
  have "map (nodeAt n) (pathsFrom 0 (forEachChild n)) =
        map (childAt (forEachChild n)) (pathsFrom 0 (forEachChild n))"
  proof (rule map_cong[OF refl])
    fix p assume "p \<in> set (pathsFrom 0 (forEachChild n))"
    from pathsFrom_heads[OF this] obtain j js where "p = j # js" by blast
    then show "nodeAt n p = childAt (forEachChild n) p"
      by (simp only: nodeAt_childAt)
  qed
  moreover have "map (childAt ([] @ forEachChild n)) (pathsFrom 0 (forEachChild n)) =
      map Some (preorders (forEachChild n))"
    by (rule "1.IH"[rule_format]) simp
  ultimately have "map (nodeAt n) (pathsFrom 0 (forEachChild n)) =
      map Some (preorders (forEachChild n))"
    by (simp only: append_Nil)
  then show ?case
    unfolding paths.simps(1) preorder.simps(1) by (simp only: list.map nodeAt.simps)
next
  case (2 i)
  show ?case by simp
next
  case (3 i c cs)
  show ?case
  proof (intro allI impI)
    fix pre :: "Node list"
    assume len: "length pre = i"
    have a: "map (childAt (pre @ c # cs)) (map ((#) i) (paths c)) = map Some (preorder c)"
      using "3.IH"(1) len by (simp add: childAt_def comp_def nth_append)
    from len have "length (pre @ [c]) = Suc i" by simp
    then have "map (childAt ((pre @ [c]) @ cs)) (pathsFrom (Suc i) cs) = map Some (preorders cs)"
      by (rule "3.IH"(2)[rule_format])
    with a show "map (childAt (pre @ c # cs)) (pathsFrom i (c # cs)) = map Some (preorders (c # cs))"
      by simp
  qed
qed

lemma paths_increasing:
  "sorted_wrt (<) (paths n)"
  "sorted_wrt (<) (pathsFrom i cs)"
proof (induction n and i cs rule: paths_pathsFrom.induct)
  case (1 n)
  have "[] < p" if "p \<in> set (pathsFrom 0 (forEachChild n))" for p
    using pathsFrom_heads[OF that] by auto
  with "1.IH" show ?case by (auto simp: paths.simps(1))
next
  case (2 i)
  show ?case by simp
next
  case (3 i c cs)
  have "sorted_wrt (<) (map ((#) i) (paths c))"
    using "3.IH"(1) by (simp add: sorted_wrt_map)
  moreover have "p < q" if "p \<in> set (map ((#) i) (paths c))" "q \<in> set (pathsFrom (Suc i) cs)" for p q
    using that(1) pathsFrom_heads[OF that(2)] by auto
  ultimately show ?case
    using "3.IH"(2) by (simp add: sorted_wrt_append)
qed

lemma paths_complete:
  "set (paths n) = {p. nodeAt n p \<noteq> None}"
  "\<forall>pre. length pre = i \<longrightarrow>
     set (pathsFrom i cs) = {p. childAt (pre @ cs) p \<noteq> None \<and> (\<exists>j js. p = j # js \<and> i \<le> j)}"
proof (induction n and i cs rule: paths_pathsFrom.induct)
  case (1 n)
  have kids: "set (pathsFrom 0 (forEachChild n)) =
      {p. childAt ([] @ forEachChild n) p \<noteq> None \<and> (\<exists>j js. p = j # js \<and> 0 \<le> j)}"
    by (rule "1.IH"[rule_format]) simp
  show ?case
  proof (rule set_eqI)
    fix p
    show "p \<in> set (paths n) \<longleftrightarrow> p \<in> {p. nodeAt n p \<noteq> None}"
    proof (cases p)
      case Nil
      then show ?thesis by (simp add: paths.simps(1))
    next
      case (Cons j js)
      have "p \<in> set (paths n) \<longleftrightarrow> p \<in> set (pathsFrom 0 (forEachChild n))"
        using Cons by (simp add: paths.simps(1))
      also have "\<dots> \<longleftrightarrow> childAt (forEachChild n) (j # js) \<noteq> None"
        unfolding kids using Cons by simp
      also have "\<dots> \<longleftrightarrow> nodeAt n p \<noteq> None"
        unfolding Cons by (simp only: nodeAt_childAt)
      finally show ?thesis by simp
    qed
  qed
next
  case (2 i)
  show ?case
  proof (intro allI impI set_eqI)
    fix pre :: "Node list" and p
    assume "length pre = i"
    then show "p \<in> set (pathsFrom i []) \<longleftrightarrow>
        p \<in> {p. childAt (pre @ []) p \<noteq> None \<and> (\<exists>j js. p = j # js \<and> i \<le> j)}"
      by (cases p) auto
  qed
next
  case (3 i c cs)
  show ?case
  proof (intro allI impI)
    fix pre :: "Node list"
    assume len: "length pre = i"
    then have len': "length (pre @ [c]) = Suc i" by simp
    have rest: "set (pathsFrom (Suc i) cs) =
        {p. childAt ((pre @ [c]) @ cs) p \<noteq> None \<and> (\<exists>j js. p = j # js \<and> Suc i \<le> j)}"
      by (rule "3.IH"(2)[rule_format]) (rule len')
    have same: "(pre @ [c]) @ cs = pre @ c # cs" by simp
    show "set (pathsFrom i (c # cs)) =
            {p. childAt (pre @ c # cs) p \<noteq> None \<and> (\<exists>j js. p = j # js \<and> i \<le> j)}"
    proof (rule set_eqI)
      fix p
      show "p \<in> set (pathsFrom i (c # cs)) \<longleftrightarrow>
              p \<in> {p. childAt (pre @ c # cs) p \<noteq> None \<and> (\<exists>j js. p = j # js \<and> i \<le> j)}"
      proof (cases p)
        case Nil
        have "[] \<notin> set (pathsFrom i (c # cs))"
          using pathsFrom_heads[of "[]" i "c # cs"] by blast
        with Nil show ?thesis by simp
      next
        case (Cons j js)
        show ?thesis
        proof (cases "j = i")
          case True
          have no: "i # js \<notin> set (pathsFrom (Suc i) cs)"
            using pathsFrom_heads[of "i # js" "Suc i" cs] by auto
          have "p \<in> set (pathsFrom i (c # cs)) \<longleftrightarrow> js \<in> set (paths c)"
            using no Cons True by auto
          also have "\<dots> \<longleftrightarrow> nodeAt c js \<noteq> None"
            using "3.IH"(1) by simp
          also have "\<dots> \<longleftrightarrow> childAt (pre @ c # cs) (i # js) \<noteq> None"
            using len by (simp add: nth_append)
          finally show ?thesis using Cons True by simp
        next
          case False
          have "p \<in> set (pathsFrom i (c # cs)) \<longleftrightarrow> p \<in> set (pathsFrom (Suc i) cs)"
            using Cons False by auto
          also have "\<dots> \<longleftrightarrow> childAt (pre @ c # cs) (j # js) \<noteq> None \<and> Suc i \<le> j"
            unfolding rest same using Cons by simp
          also have "\<dots> \<longleftrightarrow> childAt (pre @ c # cs) (j # js) \<noteq> None \<and> i \<le> j"
            using False by auto
          finally show ?thesis using Cons by simp
        qed
      qed
    qed
  qed
qed

section \<open>The scenarios of the specification\<close>

text \<open>
  The rule on the example files: the decorated method \<open>foo\<close> and the undecorated
  property \<open>baz\<close> are reported, the private method \<open>bar\<close> and the decorated property
  \<open>qux\<close> are not.
\<close>

lemma scenario_members:
  "Rule_apply membersFile =
     Inr [\<lparr>startPosition = 15, endPosition = 18,
           failure = ''The class method 'foo' must be marked either 'private', 'public', or 'protected'' @ [CHR 0x27],
           rf_fix = Some \<lparr>rep_start = 15, rep_length = 0, rep_text = ''public ''\<rparr>\<rparr>,
          \<lparr>startPosition = 41, endPosition = 44,
           failure = ''The class property 'baz' must be marked either 'private', 'public', or 'protected'' @ [CHR 0x27],
           rf_fix = Some \<lparr>rep_start = 41, rep_length = 0, rep_text = ''public ''\<rparr>\<rparr>]"
  by code_simp

section \<open>The claims\<close>

text \<open>
  Claim C1 (amended). The walk passes no constructor and no parameter to \<^verbatim>\<open>check\<close>: when
  every decorated class member has a token after its decorators, the failures of
  \<^verbatim>\<open>apply\<close> are those of the class members that are neither constructors nor parameters,
  so a constructor parameter is never reported, with or without a modifier. The label
  \<open>parameter property\<close> is what \<^verbatim>\<open>check\<close> itself reports for a parameter node: one failure
  when the parameter carries none of \<^verbatim>\<open>public\<close>, \<^verbatim>\<open>private\<close>, \<^verbatim>\<open>protected\<close>, and none
  otherwise.
\<close>

theorem constructor_parameters_unchecked:
  assumes "\<forall>m \<in> set (classMembers sf). tokenAfterDecorators m"
    and "kind p = Parameter" and "tokenAfterDecorators p"
  shows "Rule_apply sf =
           Inr (concat (map (memberFailures sf)
                  (filter (\<lambda>m. kind m \<noteq> Constructor \<and> kind m \<noteq> Parameter) (classMembers sf))))
         \<and> (\<exists>q. getInsertionPosition p (sourceFile ctx) = Inr q
              \<and> check p ctx =
                  (if hasVisibilityModifier p then Inr ctx
                   else Inr (ctx\<lparr>failures := failures ctx @
                          [\<lparr>startPosition = min (getStart (locationNode p)) (getEnd (sourceFile ctx)),
                            endPosition = min (getEnd (locationNode p)) (getEnd (sourceFile ctx)),
                            failure = FAILURE_STRING_FACTORY ''parameter property'' (nameText p),
                            rf_fix = Some (appendText q ''public '')\<rparr>]\<rparr>)))"
proof -
  have skip: "memberFailures sf m = []" if "\<not> (kind m \<noteq> Constructor \<and> kind m \<noteq> Parameter)" for m
    using that by (auto simp: memberFailures_def shouldCheck_def)
  have "concat (map (memberFailures sf) ms) =
        concat (map (memberFailures sf) (filter (\<lambda>m. kind m \<noteq> Constructor \<and> kind m \<noteq> Parameter) ms))"
    for ms
    by (induction ms) (use skip in auto)
  with Rule_apply_failures[OF assms(1)] have first: "Rule_apply sf =
           Inr (concat (map (memberFailures sf)
                  (filter (\<lambda>m. kind m \<noteq> Constructor \<and> kind m \<noteq> Parameter) (classMembers sf))))"
    by simp
  from insertion_defined[OF assms(3)] obtain q where q: "getInsertionPosition p (sourceFile ctx) = Inr q" ..
  from assms(2) have l: "typeToString p = Inr ''parameter property''"
    by (simp add: typeToString_def)
  have "check p ctx =
                  (if hasVisibilityModifier p then Inr ctx
                   else Inr (ctx\<lparr>failures := failures ctx @
                          [\<lparr>startPosition = min (getStart (locationNode p)) (getEnd (sourceFile ctx)),
                            endPosition = min (getEnd (locationNode p)) (getEnd (sourceFile ctx)),
                            failure = FAILURE_STRING_FACTORY ''parameter property'' (nameText p),
                            rf_fix = Some (appendText q ''public '')\<rparr>]\<rparr>))"
    using check_silent[of p ctx] check_emits[OF _ l q]
    by (simp add: addFailure_def Let_def)
  with first q show ?thesis by blast
qed

theorem constructor_parameters_unchecked_witness:
  "list_all tokenAfterDecorators (classMembers ctorFile)
   \<and> kind ctorParamY = Parameter \<and> tokenAfterDecorators ctorParamY
   \<and> Rule_apply ctorFile = Inr []
   \<and> check ctorParamY \<lparr>sourceFile = ctorFile, failures = []\<rparr> =
       Inr \<lparr>sourceFile = ctorFile,
            failures = [\<lparr>startPosition = 40, endPosition = 41,
              failure = ''The parameter property 'y' must be marked either 'private', 'public', or 'protected'' @ [CHR 0x27],
              rf_fix = Some \<lparr>rep_start = 40, rep_length = 0, rep_text = ''public ''\<rparr>\<rparr>]\<rparr>"
proof -
  have h1: "\<forall>m \<in> set (classMembers ctorFile). tokenAfterDecorators m" by code_simp
  have h1': "list_all tokenAfterDecorators (classMembers ctorFile)" by code_simp
  have h2: "kind ctorParamY = Parameter" by code_simp
  have h3: "tokenAfterDecorators ctorParamY" by code_simp
  have m: "classMembers ctorFile = [ctorMember]" by code_simp
  have k: "kind ctorMember = Constructor" by code_simp
  have v: "\<not> hasVisibilityModifier ctorParamY" by code_simp
  have l: "getStart (locationNode ctorParamY) = 40" "getEnd (locationNode ctorParamY) = 41"
    "getEnd ctorFile = 55" "nameText ctorParamY = Some ''y''"
    by code_simp+
  have q: "getInsertionPosition ctorParamY ctorFile = Inr 40" by code_simp
  from constructor_parameters_unchecked[OF h1 h2 h3, of "\<lparr>sourceFile = ctorFile, failures = []\<rparr>"]
  show ?thesis
    using h1' h2 h3
    by (simp add: m k v l q FAILURE_STRING_FACTORY_def apostrophe_def appendText_def)
qed

theorem constructor_parameters_counterexample:
  "kind ctorParamY = Parameter \<and> \<not> hasVisibilityModifier ctorParamY
   \<and> ctorParamY \<in> set (forEachChild ctorMember) \<and> ctorMember \<in> set (members ctorClass)
   \<and> forEachChild ctorFile = [ctorClass, token EndOfFileToken [] 55 55 55]
   \<and> Rule_apply ctorFile = Inr []"
  by code_simp

text \<open>
  Claim C2. When every decorated class member has a token after its decorators, \<^verbatim>\<open>apply\<close>
  returns the failures of the class members in the order of the walk, and a member that
  is a method, a get-accessor or a set-accessor contributes exactly one failure when it
  carries none of \<^verbatim>\<open>public\<close>, \<^verbatim>\<open>private\<close>, \<^verbatim>\<open>protected\<close>, and none when it carries
  one. Decorators play no part in it.
\<close>

theorem methods_and_accessors_need_modifier:
  assumes "\<forall>m \<in> set (classMembers sf). tokenAfterDecorators m"
    and "member \<in> set (classMembers sf)"
    and "kind member = MethodDeclaration \<or> kind member = GetAccessor \<or> kind member = SetAccessor"
  shows "Rule_apply sf = Inr (concat (map (memberFailures sf) (classMembers sf)))
         \<and> (if hasVisibilityModifier member then memberFailures sf member = []
            else \<exists>label p. typeToString member = Inr label
                   \<and> getInsertionPosition member sf = Inr p
                   \<and> memberFailures sf member =
                       [\<lparr>startPosition = min (getStart (locationNode member)) (getEnd sf),
                         endPosition = min (getEnd (locationNode member)) (getEnd sf),
                         failure = FAILURE_STRING_FACTORY label (nameText member),
                         rf_fix = Some (appendText p ''public '')\<rparr>])"
proof -
  from assms(3) have sc: "shouldCheck member"
    by (auto simp: shouldCheck_def)
  from assms(1,2) have "tokenAfterDecorators member" by simp
  from insertion_defined[OF this] obtain p where p: "getInsertionPosition member sf = Inr p" ..
  from shouldCheck_label[OF sc] obtain label where l: "typeToString member = Inr label" ..
  show ?thesis
    using Rule_apply_failures[OF assms(1)] memberFailures_silent[of member sf]
      memberFailures_emits[OF sc _ l p] l p
    by simp
qed

theorem methods_and_accessors_need_modifier_witness:
  "list_all tokenAfterDecorators (classMembers membersFile)
   \<and> fooMethod \<in> set (classMembers membersFile) \<and> barMethod \<in> set (classMembers membersFile)
   \<and> kind fooMethod = MethodDeclaration \<and> kind barMethod = MethodDeclaration
   \<and> decorators fooMethod \<noteq> None \<and> \<not> hasVisibilityModifier fooMethod
   \<and> hasVisibilityModifier barMethod
   \<and> Rule_apply membersFile = Inr (concat (map (memberFailures membersFile) (classMembers membersFile)))
   \<and> length (memberFailures membersFile fooMethod) = 1
   \<and> memberFailures membersFile barMethod = []"
proof -
  have h1: "\<forall>m \<in> set (classMembers membersFile). tokenAfterDecorators m" by code_simp
  have h1': "list_all tokenAfterDecorators (classMembers membersFile)" by code_simp
  have h2: "fooMethod \<in> set (classMembers membersFile)" by code_simp
  have h3: "barMethod \<in> set (classMembers membersFile)" by code_simp
  have k: "kind fooMethod = MethodDeclaration" "kind barMethod = MethodDeclaration" by code_simp+
  have d: "decorators fooMethod \<noteq> None" by code_simp
  have v: "\<not> hasVisibilityModifier fooMethod" "hasVisibilityModifier barMethod" by code_simp+
  from methods_and_accessors_need_modifier[OF h1 h2] methods_and_accessors_need_modifier[OF h1 h3]
  show ?thesis
    using h1' h2 h3 k d v by auto
qed

text \<open>
  Claim C3. When every decorated class member has a token after its decorators, a
  property declaration among the class members contributes exactly one failure to the
  result of \<^verbatim>\<open>apply\<close> when it has no decorators and carries none of \<^verbatim>\<open>public\<close>,
  \<^verbatim>\<open>private\<close>, \<^verbatim>\<open>protected\<close>, and none otherwise; a decorated property without modifier
  is not reported.
\<close>

theorem properties_need_modifier_unless_decorated:
  assumes "\<forall>m \<in> set (classMembers sf). tokenAfterDecorators m"
    and "member \<in> set (classMembers sf)"
    and "kind member = PropertyDeclaration"
  shows "Rule_apply sf = Inr (concat (map (memberFailures sf) (classMembers sf)))
         \<and> (if decorators member = None \<and> \<not> hasVisibilityModifier member
            then memberFailures sf member =
                   [\<lparr>startPosition = min (getStart (locationNode member)) (getEnd sf),
                     endPosition = min (getEnd (locationNode member)) (getEnd sf),
                     failure = FAILURE_STRING_FACTORY ''class property'' (nameText member),
                     rf_fix = Some (appendText (getStart member) ''public '')\<rparr>]
            else memberFailures sf member = [])"
proof (cases "decorators member = None")
  case False
  with assms(3) have "\<not> shouldCheck member" by (simp add: shouldCheck_def)
  with False Rule_apply_failures[OF assms(1)] show ?thesis
    by (simp add: memberFailures_unchecked)
next
  case True
  with assms(3) have sc: "shouldCheck member" by (simp add: shouldCheck_def)
  from assms(3) have l: "typeToString member = Inr ''class property''"
    by (simp add: typeToString_def)
  from True have p: "getInsertionPosition member sf = Inr (getStart member)"
    by (simp add: getInsertionPosition_def)
  show ?thesis
    using True Rule_apply_failures[OF assms(1)] memberFailures_silent[of member sf]
      memberFailures_emits[OF sc _ l p]
    by simp
qed

theorem properties_need_modifier_unless_decorated_witness:
  "list_all tokenAfterDecorators (classMembers membersFile)
   \<and> bazProperty \<in> set (classMembers membersFile) \<and> quxProperty \<in> set (classMembers membersFile)
   \<and> kind bazProperty = PropertyDeclaration \<and> kind quxProperty = PropertyDeclaration
   \<and> decorators bazProperty = None \<and> \<not> hasVisibilityModifier bazProperty
   \<and> decorators quxProperty \<noteq> None \<and> \<not> hasVisibilityModifier quxProperty
   \<and> Rule_apply membersFile = Inr (concat (map (memberFailures membersFile) (classMembers membersFile)))
   \<and> length (memberFailures membersFile bazProperty) = 1
   \<and> memberFailures membersFile quxProperty = []"
proof -
  have h1: "\<forall>m \<in> set (classMembers membersFile). tokenAfterDecorators m" by code_simp
  have h1': "list_all tokenAfterDecorators (classMembers membersFile)" by code_simp
  have h2: "bazProperty \<in> set (classMembers membersFile)" by code_simp
  have h3: "quxProperty \<in> set (classMembers membersFile)" by code_simp
  have k: "kind bazProperty = PropertyDeclaration" "kind quxProperty = PropertyDeclaration"
    by code_simp+
  have d: "decorators bazProperty = None" "decorators quxProperty \<noteq> None" by code_simp+
  have v: "\<not> hasVisibilityModifier bazProperty" "\<not> hasVisibilityModifier quxProperty"
    by code_simp+
  from properties_need_modifier_unless_decorated[OF h1 h2 k(1)]
    properties_need_modifier_unless_decorated[OF h1 h3 k(2)]
  show ?thesis
    using h1' h2 h3 k d v by auto
qed

text \<open>
  Claim C4 (amended). Every failure that \<^verbatim>\<open>check\<close> reports has the message
  \<^verbatim>\<open>The <type> '<name>' must be marked either 'private', 'public', or 'protected'\<close>, with
  the label of the member for \<^verbatim>\<open><type>\<close> and the text of its name for \<^verbatim>\<open><name>\<close>, when
  the name of the member is an identifier; when the member has no name, or a name that
  is no identifier, the segment \<^verbatim>\<open> '<name>'\<close> with its leading space is left out and the
  rest of the message is the same.
\<close>

theorem message_names_identifiers_only:
  assumes "check node ctx = Inr ctx'" and "failures ctx' \<noteq> failures ctx"
  shows "\<exists>label f. typeToString node = Inr label \<and> failures ctx' = failures ctx @ [f]
           \<and> failure f =
               (case name node of
                  None \<Rightarrow>
                    ''The '' @ label @
                    '' must be marked either 'private', 'public', or 'protected'' @ [CHR 0x27]
                | Some n \<Rightarrow>
                    if kind n = Identifier then
                      ''The '' @ label @ '' '' @ [CHR 0x27] @ text' n @ [CHR 0x27] @
                      '' must be marked either 'private', 'public', or 'protected'' @ [CHR 0x27]
                    else
                      ''The '' @ label @
                      '' must be marked either 'private', 'public', or 'protected'' @ [CHR 0x27])"
  using assms(1)
proof (cases rule: check_Inr_cases)
  case silent
  with assms(2) show ?thesis by simp
next
  case (emitted label p)
  then show ?thesis
    by (auto simp: addFailure_failures FAILURE_STRING_FACTORY_def nameText_def apostrophe_def
             split: option.splits)
qed

theorem message_names_identifiers_only_witness:
  "check fooMethod \<lparr>sourceFile = membersFile, failures = []\<rparr> =
     Inr \<lparr>sourceFile = membersFile,
          failures = [\<lparr>startPosition = 15, endPosition = 18,
            failure = ''The class method 'foo' must be marked either 'private', 'public', or 'protected'' @ [CHR 0x27],
            rf_fix = Some \<lparr>rep_start = 15, rep_length = 0, rep_text = ''public ''\<rparr>\<rparr>]\<rparr>
   \<and> name fooMethod = Some (token Identifier ''foo'' 14 15 18)
   \<and> typeToString fooMethod = Inr ''class method''
   \<and> ''The class method 'foo' must be marked either 'private', 'public', or 'protected'' @ [CHR 0x27] =
       ''The '' @ ''class method'' @ '' '' @ [CHR 0x27] @ ''foo'' @ [CHR 0x27] @
       '' must be marked either 'private', 'public', or 'protected'' @ [CHR 0x27]"
proof -
  have c: "check fooMethod \<lparr>sourceFile = membersFile, failures = []\<rparr> =
     Inr \<lparr>sourceFile = membersFile,
          failures = [\<lparr>startPosition = 15, endPosition = 18,
            failure = ''The class method 'foo' must be marked either 'private', 'public', or 'protected'' @ [CHR 0x27],
            rf_fix = Some \<lparr>rep_start = 15, rep_length = 0, rep_text = ''public ''\<rparr>\<rparr>]\<rparr>"
    by code_simp
  have n: "name fooMethod = Some (token Identifier ''foo'' 14 15 18)"
    by (simp add: fooMethod_def)
  from message_names_identifiers_only[OF c] n c show ?thesis
    by (auto simp: token_def)
qed

theorem named_member_message_counterexample:
  "name quotedMethod = Some (token StringLiteral ''foo'' 9 10 15)
   \<and> Rule_apply quotedFile =
       Inr [\<lparr>startPosition = 10, endPosition = 15,
             failure = ''The class method must be marked either 'private', 'public', or 'protected'' @ [CHR 0x27],
             rf_fix = Some \<lparr>rep_start = 10, rep_length = 0, rep_text = ''public ''\<rparr>\<rparr>]"
  by code_simp

text \<open>
  Claim C5 (amended). Every fix that \<^verbatim>\<open>check\<close> reports is an insertion of length zero
  of the text \<^verbatim>\<open>public \<close>. Without decorators it is placed at the start of the member.
  With decorators, in a member laid out as the parser lays it out, the offset is the
  start of the first token of the member that ends after the decorator list: it is
  greater than or equal to the end of the last decorator, and less than or equal to the
  start of each modifier of the member, of its name, and of every token among its
  children after the decorators (the keyword of an accessor, say).
\<close>

theorem fix_insertion_point:
  assumes "check member ctx = Inr ctx'" and "failures ctx' \<noteq> failures ctx"
  shows "\<exists>f offset. failures ctx' = failures ctx @ [f]
           \<and> rf_fix f = Some \<lparr>rep_start = offset, rep_length = 0, rep_text = ''public ''\<rparr>
           \<and> (case decorators member of
                 None \<Rightarrow> offset = getStart member
               | Some ds \<Rightarrow>
                   laidOutAsParsed member ds \<longrightarrow>
                     getEnd (last (elements ds)) \<le> offset
                     \<and> (\<exists>t rest. tokensAfter member (array_end ds) = t # rest \<and> offset = getStart t)
                     \<and> (case modifiers member of
                           None \<Rightarrow> True
                         | Some ms \<Rightarrow> \<forall>m \<in> set (elements ms). offset \<le> getStart m)
                     \<and> (case name member of
                           None \<Rightarrow> True
                         | Some nm \<Rightarrow> offset \<le> getStart nm)
                     \<and> (\<forall>x \<in> set (getChildren member).
                           isTokenKind (kind x) \<and> array_end ds < getEnd x \<longrightarrow> offset \<le> getStart x))"
  using assms(1)
proof (cases rule: check_Inr_cases)
  case silent
  with assms(2) show ?thesis by simp
next
  case (emitted label p)
  let ?f = "\<lparr>startPosition = min (getStart (locationNode member)) (getEnd (sourceFile ctx)),
             endPosition = min (getEnd (locationNode member)) (getEnd (sourceFile ctx)),
             failure = FAILURE_STRING_FACTORY label (nameText member),
             rf_fix = Some \<lparr>rep_start = p, rep_length = 0, rep_text = ''public ''\<rparr>\<rparr>"
  from emitted(4) have f: "failures ctx' = failures ctx @ [?f]"
    by (simp add: addFailure_failures appendText_def)
  have "case decorators member of
          None \<Rightarrow> p = getStart member
        | Some ds \<Rightarrow>
            laidOutAsParsed member ds \<longrightarrow>
              getEnd (last (elements ds)) \<le> p
              \<and> (\<exists>t rest. tokensAfter member (array_end ds) = t # rest \<and> p = getStart t)
              \<and> (case modifiers member of
                    None \<Rightarrow> True
                  | Some ms \<Rightarrow> \<forall>m \<in> set (elements ms). p \<le> getStart m)
              \<and> (case name member of
                    None \<Rightarrow> True
                  | Some nm \<Rightarrow> p \<le> getStart nm)
              \<and> (\<forall>x \<in> set (getChildren member).
                    isTokenKind (kind x) \<and> array_end ds < getEnd x \<longrightarrow> p \<le> getStart x)"
  proof (cases "decorators member")
    case None
    with emitted(3) show ?thesis by (simp add: getInsertionPosition_def)
  next
    case (Some ds)
    with emitted(3) obtain t where t: "getTokenAtPosition member (array_end ds) = Some t"
      and p: "p = getStart t"
      by (auto simp: getInsertionPosition_def split: option.splits)
    have "getEnd (last (elements ds)) \<le> p
          \<and> (\<exists>t rest. tokensAfter member (array_end ds) = t # rest \<and> p = getStart t)
          \<and> (case modifiers member of
                None \<Rightarrow> True
              | Some ms \<Rightarrow> \<forall>m \<in> set (elements ms). p \<le> getStart m)
          \<and> (case name member of
                None \<Rightarrow> True
              | Some nm \<Rightarrow> p \<le> getStart nm)
          \<and> (\<forall>x \<in> set (getChildren member).
                isTokenKind (kind x) \<and> array_end ds < getEnd x \<longrightarrow> p \<le> getStart x)"
      if lay: "laidOutAsParsed member ds"
      using insertion_bounds[OF lay t] p
      by (auto split: option.splits)
    with Some show ?thesis by simp
  qed
  with f show ?thesis by (intro exI[of _ ?f] exI[of _ p]) simp
qed

theorem fix_insertion_point_witness:
  "check documentedMethod \<lparr>sourceFile = documentedFile, failures = []\<rparr> =
     Inr \<lparr>sourceFile = documentedFile,
          failures = [\<lparr>startPosition = 41, endPosition = 44,
            failure = ''The class method 'foo' must be marked either 'private', 'public', or 'protected'' @ [CHR 0x27],
            rf_fix = Some \<lparr>rep_start = 34, rep_length = 0, rep_text = ''public ''\<rparr>\<rparr>]\<rparr>
   \<and> list_ex (\<lambda>c. kind c = JSDocComment) (getChildren documentedMethod)
   \<and> (case decorators documentedMethod of
         None \<Rightarrow> False
       | Some ds \<Rightarrow>
           laidOutAsParsed documentedMethod ds \<and> getEnd (last (elements ds)) = 25
           \<and> getEnd (last (elements ds)) \<le> 34)
   \<and> modifiers documentedMethod = Some (NodeArray [token StaticKeyword [] 25 34 40] 25 40)
   \<and> (34::int) \<le> getStart (token StaticKeyword [] 25 34 40)
   \<and> name documentedMethod = Some (token Identifier ''foo'' 40 41 44)
   \<and> (34::int) \<le> getStart (token Identifier ''foo'' 40 41 44)"
proof -
  have c: "check documentedMethod \<lparr>sourceFile = documentedFile, failures = []\<rparr> =
     Inr \<lparr>sourceFile = documentedFile,
          failures = [\<lparr>startPosition = 41, endPosition = 44,
            failure = ''The class method 'foo' must be marked either 'private', 'public', or 'protected'' @ [CHR 0x27],
            rf_fix = Some \<lparr>rep_start = 34, rep_length = 0, rep_text = ''public ''\<rparr>\<rparr>]\<rparr>"
    by code_simp
  have j: "list_ex (\<lambda>c. kind c = JSDocComment) (getChildren documentedMethod)" by code_simp
  obtain ds where d: "decorators documentedMethod = Some ds"
    by (simp add: documentedMethod_def)
  have lay: "case decorators documentedMethod of None \<Rightarrow> False
             | Some ds \<Rightarrow> laidOutAsParsed documentedMethod ds \<and> getEnd (last (elements ds)) = 25"
    by code_simp
  have m: "modifiers documentedMethod = Some (NodeArray [token StaticKeyword [] 25 34 40] 25 40)"
    by (simp add: documentedMethod_def)
  have n: "name documentedMethod = Some (token Identifier ''foo'' 40 41 44)"
    by (simp add: documentedMethod_def)
  from fix_insertion_point[OF c] c j d lay m n show ?thesis
    by auto
qed

theorem insertion_after_decorator_counterexample:
  "(case decorators tightMethod of
      None \<Rightarrow> False
    | Some ds \<Rightarrow> laidOutAsParsed tightMethod ds \<and> getEnd (last (elements ds)) = 16)
   \<and> Rule_apply tightFile =
       Inr [\<lparr>startPosition = 16, endPosition = 19,
             failure = ''The class method 'foo' must be marked either 'private', 'public', or 'protected'' @ [CHR 0x27],
             rf_fix = Some \<lparr>rep_start = 16, rep_length = 0, rep_text = ''public ''\<rparr>\<rparr>]"
  by code_simp

text \<open>
  Claim C6. For every node whose kind is none of method declaration, property
  declaration, get-accessor, set-accessor and parameter, \<^verbatim>\<open>typeToString\<close> throws its
  internal error, which names the kind; it returns no label.
\<close>

theorem typeToString_unhandled:
  assumes "kind node \<notin> {MethodDeclaration, PropertyDeclaration, GetAccessor, SetAccessor, Parameter}"
  shows "typeToString node = Inl (UnhandledNodeType (kind node))"
  using assms by (cases "kind node") (simp_all add: typeToString_def)

theorem typeToString_unhandled_witness:
  "kind ctorMember \<notin> {MethodDeclaration, PropertyDeclaration, GetAccessor, SetAccessor, Parameter}
   \<and> typeToString ctorMember = Inl (UnhandledNodeType Constructor)"
  using typeToString_unhandled[of ctorMember] by (simp add: ctorMember_def)

text \<open>
  Claim C7. The walk applies the class-specific step of \<^verbatim>\<open>recur\<close> to the nodes below the
  root of the file in depth-first pre-order, until a check throws: the nodes visited are
  those at the positions \<open>paths\<close> lists after the root, the positions are listed in
  strictly increasing lexicographic order (a node before its descendants, a left sibling
  and its descendants before a right sibling), so each once, and every position of the
  tree is among them. The callback never returns a truthy value (the result is \<open>None\<close>),
  so \<^verbatim>\<open>ts.forEachChild\<close> never stops early and the children of a class-like declaration
  are walked after its members have been checked.
\<close>

theorem walk_visits_every_node_in_preorder:
  "walk ctx =
     (case classSteps (preorders (forEachChild (sourceFile ctx))) ctx of
        Inl e \<Rightarrow> Inl e
      | Inr ctx' \<Rightarrow> Inr (None, ctx'))
   \<and> map (nodeAt (sourceFile ctx)) (tl (paths (sourceFile ctx))) =
       map Some (preorders (forEachChild (sourceFile ctx)))
   \<and> sorted_wrt (<) (paths (sourceFile ctx))
   \<and> set (paths (sourceFile ctx)) = {p. nodeAt (sourceFile ctx) p \<noteq> None}"
proof -
  have "map (nodeAt (sourceFile ctx)) (paths (sourceFile ctx)) = map Some (preorder (sourceFile ctx))"
    by (rule paths_preorder(1))
  then have "map (nodeAt (sourceFile ctx)) (tl (paths (sourceFile ctx))) =
       map Some (preorders (forEachChild (sourceFile ctx)))"
    by (simp add: paths.simps(1) preorder.simps(1))
  with walk_classSteps[of ctx] paths_increasing(1)[of "sourceFile ctx"]
    paths_complete(1)[of "sourceFile ctx"]
  show ?thesis by simp
qed

theorem walk_visits_every_node_in_preorder_witness:
  "map kind (preorders (forEachChild nestedFile)) =
     [ClassDeclaration, Identifier, MethodDeclaration, PublicKeyword, Identifier, Block,
      ClassDeclaration, Identifier, MethodDeclaration, Identifier, Block, EndOfFileToken]
   \<and> tl (paths nestedFile) =
       [[0], [0, 0], [0, 1], [0, 1, 0], [0, 1, 1], [0, 1, 2],
        [0, 1, 2, 0], [0, 1, 2, 0, 0], [0, 1, 2, 0, 1], [0, 1, 2, 0, 1, 0], [0, 1, 2, 0, 1, 1], [1]]
   \<and> nodeAt nestedFile [0, 1, 2, 0] = Some innerClass
   \<and> members innerClass = [innerMethod]
   \<and> walk \<lparr>sourceFile = nestedFile, failures = []\<rparr> =
       Inr (None, \<lparr>sourceFile = nestedFile,
         failures = [\<lparr>startPosition = 35, endPosition = 38,
           failure = ''The class method 'bar' must be marked either 'private', 'public', or 'protected'' @ [CHR 0x27],
           rf_fix = Some \<lparr>rep_start = 35, rep_length = 0, rep_text = ''public ''\<rparr>\<rparr>]\<rparr>)"
proof -
  have k: "map kind (preorders (forEachChild nestedFile)) =
     [ClassDeclaration, Identifier, MethodDeclaration, PublicKeyword, Identifier, Block,
      ClassDeclaration, Identifier, MethodDeclaration, Identifier, Block, EndOfFileToken]"
    by code_simp
  have p: "tl (paths nestedFile) =
       [[0], [0, 0], [0, 1], [0, 1, 0], [0, 1, 1], [0, 1, 2],
        [0, 1, 2, 0], [0, 1, 2, 0, 0], [0, 1, 2, 0, 1], [0, 1, 2, 0, 1, 0], [0, 1, 2, 0, 1, 1], [1]]"
    by code_simp
  have n: "nodeAt nestedFile [0, 1, 2, 0] = Some innerClass" by code_simp
  have m: "members innerClass = [innerMethod]" by code_simp
  have s: "classSteps (preorders (forEachChild nestedFile)) \<lparr>sourceFile = nestedFile, failures = []\<rparr> =
       Inr \<lparr>sourceFile = nestedFile,
         failures = [\<lparr>startPosition = 35, endPosition = 38,
           failure = ''The class method 'bar' must be marked either 'private', 'public', or 'protected'' @ [CHR 0x27],
           rf_fix = Some \<lparr>rep_start = 35, rep_length = 0, rep_text = ''public ''\<rparr>\<rparr>]\<rparr>"
    by code_simp
  from walk_visits_every_node_in_preorder[of "\<lparr>sourceFile = nestedFile, failures = []\<rparr>"]
  show ?thesis
    using k p n m by (simp add: s)
qed

text \<open>
  Claim C8. Every failure that \<^verbatim>\<open>check\<close> reports spans, from start to end and capped at
  the length of the file, the node the source selects: the \<^verbatim>\<open>constructor\<close> keyword token
  for a constructor, else the name node of the member when it has one, else the member
  itself. No failure is reported for a constructor, since \<^verbatim>\<open>typeToString\<close> throws for it
  first.
\<close>

theorem failure_location:
  assumes "check node ctx = Inr ctx'" and "failures ctx' \<noteq> failures ctx"
  shows "\<exists>f loc. failures ctx' = failures ctx @ [f]
           \<and> startPosition f = min (getStart loc) (getEnd (sourceFile ctx))
           \<and> endPosition f = min (getEnd loc) (getEnd (sourceFile ctx))
           \<and> (if kind node = Constructor then getChildOfKind node ConstructorKeyword = Some loc
              else case name node of Some n \<Rightarrow> loc = n | None \<Rightarrow> loc = node)
           \<and> kind node \<noteq> Constructor"
  using assms(1)
proof (cases rule: check_Inr_cases)
  case silent
  with assms(2) show ?thesis by simp
next
  case (emitted label p)
  from typeToString_not_Constructor[OF emitted(2)] emitted(4) show ?thesis
    by (auto simp: addFailure_failures locationNode_def split: option.splits)
qed

theorem failure_location_witness:
  "check bazProperty \<lparr>sourceFile = membersFile, failures = []\<rparr> =
     Inr \<lparr>sourceFile = membersFile,
          failures = [\<lparr>startPosition = 41, endPosition = 44,
            failure = ''The class property 'baz' must be marked either 'private', 'public', or 'protected'' @ [CHR 0x27],
            rf_fix = Some \<lparr>rep_start = 41, rep_length = 0, rep_text = ''public ''\<rparr>\<rparr>]\<rparr>
   \<and> name bazProperty = Some (token Identifier ''baz'' 40 41 44)
   \<and> (\<exists>loc. (41::int) = min (getStart loc) (getEnd membersFile)
            \<and> (44::int) = min (getEnd loc) (getEnd membersFile)
            \<and> loc = token Identifier ''baz'' 40 41 44)"
proof -
  have c: "check bazProperty \<lparr>sourceFile = membersFile, failures = []\<rparr> =
     Inr \<lparr>sourceFile = membersFile,
          failures = [\<lparr>startPosition = 41, endPosition = 44,
            failure = ''The class property 'baz' must be marked either 'private', 'public', or 'protected'' @ [CHR 0x27],
            rf_fix = Some \<lparr>rep_start = 41, rep_length = 0, rep_text = ''public ''\<rparr>\<rparr>]\<rparr>"
    by code_simp
  have n: "name bazProperty = Some (token Identifier ''baz'' 40 41 44)"
    by (simp add: bazProperty_def)
  from failure_location[OF c] n c show ?thesis
    by auto
qed

text \<open>
  Claim C10. A checked member without visibility modifier whose name node is no
  identifier (a string literal or a computed property name, say) is reported with the
  message of the unnamed form, without the quoted name, while the failure still spans
  the name node.
\<close>

theorem non_identifier_name_omitted:
  assumes "shouldCheck node" and "tokenAfterDecorators node" and "\<not> hasVisibilityModifier node"
    and "name node = Some n" and "kind n \<noteq> Identifier"
  shows "\<exists>label p. typeToString node = Inr label
           \<and> check node ctx =
               Inr (ctx\<lparr>failures := failures ctx @
                      [\<lparr>startPosition = min (getStart n) (getEnd (sourceFile ctx)),
                        endPosition = min (getEnd n) (getEnd (sourceFile ctx)),
                        failure = ''The '' @ label @
                          '' must be marked either 'private', 'public', or 'protected'' @ [CHR 0x27],
                        rf_fix = Some (appendText p ''public '')\<rparr>]\<rparr>)"
proof -
  from shouldCheck_label[OF assms(1)] obtain label where l: "typeToString node = Inr label" ..
  from insertion_defined[OF assms(2)] obtain p
    where p: "getInsertionPosition node (sourceFile ctx) = Inr p" ..
  from check_emits[OF assms(3) l p] assms(4,5) l show ?thesis
    by (auto simp: addFailure_def Let_def locationNode_def nameText_def
          FAILURE_STRING_FACTORY_def apostrophe_def)
qed

theorem non_identifier_name_omitted_witness:
  "shouldCheck quotedMethod \<and> tokenAfterDecorators quotedMethod
   \<and> \<not> hasVisibilityModifier quotedMethod
   \<and> name quotedMethod = Some (token StringLiteral ''foo'' 9 10 15)
   \<and> kind (token StringLiteral ''foo'' 9 10 15) \<noteq> Identifier
   \<and> (\<exists>p. check quotedMethod \<lparr>sourceFile = quotedFile, failures = []\<rparr> =
         Inr \<lparr>sourceFile = quotedFile,
              failures = [\<lparr>startPosition = 10, endPosition = 15,
                failure = ''The class method must be marked either 'private', 'public', or 'protected'' @ [CHR 0x27],
                rf_fix = Some (appendText p ''public '')\<rparr>]\<rparr>)"
proof -
  have h: "shouldCheck quotedMethod" "tokenAfterDecorators quotedMethod"
    "\<not> hasVisibilityModifier quotedMethod"
    by code_simp+
  have n: "name quotedMethod = Some (token StringLiteral ''foo'' 9 10 15)"
    by (simp add: quotedMethod_def)
  have k: "kind (token StringLiteral ''foo'' 9 10 15) \<noteq> Identifier"
    by (simp add: token_def)
  have l: "typeToString quotedMethod = Inr ''class method''" "getEnd quotedFile = 22"
    by code_simp+
  from non_identifier_name_omitted[OF h n k, of "\<lparr>sourceFile = quotedFile, failures = []\<rparr>"]
  show ?thesis
    using h n k l by (auto simp: token_def)
qed

end
